theory Spec2Isabelle
  imports Complex_Main "HOL-Library.Sublist"
begin

section \<open>Outcomes of a C call\<close>

text \<open>
  A call of the C code either returns, or it has no defined result: an \<^verbatim>\<open>assert\<close> fails, a
  pointer that refers to no live object is dereferenced, or a signed \<^verbatim>\<open>int\<close> leaves its
  range. The second case is \<open>Fault\<close>; every function of the source that can reach it
  returns an \<open>outcome\<close>.
\<close>

datatype 'a outcome = Fault | Ok 'a

fun and_then :: "'a outcome \<Rightarrow> ('a \<Rightarrow> 'b outcome) \<Rightarrow> 'b outcome" where
  "and_then Fault f = Fault"
| "and_then (Ok x) f = f x"

section \<open>smart\_ptr.c: the reference counted handle\<close>

text \<open>
  Pointers are addresses, \<open>0\<close> is the null pointer. The payload (\<^verbatim>\<open>void*\<close>) and the free
  function (\<^verbatim>\<open>SMART_PTR_FREE_FUNC\<close>) are addresses too: the model never looks inside them.
\<close>

type_synonym addr = nat

abbreviation (input) NULL :: addr where
  "NULL \<equiv> 0"

definition INT_MAX :: int where
  "INT_MAX = 2147483647"

text \<open>\<^verbatim>\<open>LOCK_RESULT\<close> of lock.h, of which the source only tests \<^verbatim>\<open>!= LOCK_OK\<close>.\<close>

datatype LOCK_RESULT = LOCK_OK | LOCK_ERROR

record SMART_PTR_REF =
  refCount :: int
  data :: addr
  freeFunc :: addr

text \<open>
  A handle (\<^verbatim>\<open>struct SMART_PTR_TAG\<close>) holds two pointers. Its fields are written once, when it
  is made, so a handle is modelled by its contents; \<^verbatim>\<open>SMART_PTR_HANDLE\<close> is
  \<open>SMART_PTR option\<close>, with \<open>None\<close> the null handle.
\<close>

record SMART_PTR =
  lock :: addr
  ref :: addr

text \<open>
  The part of memory the handles share: the \<^verbatim>\<open>SMART_PTR_REF\<close> objects by address, and the
  calls of free functions made so far, oldest first, each with the function and its argument.
\<close>

record world =
  refs :: "addr \<Rightarrow> SMART_PTR_REF option"
  calls :: "(addr \<times> addr) list"

definition deref :: "world \<Rightarrow> addr \<Rightarrow> SMART_PTR_REF option" where
  "deref w r = (if r = NULL then None else refs w r)"

text \<open>
  \<^verbatim>\<open>free_ref\<close>: both asserts, the call of the free function, and \<^verbatim>\<open>free(ref)\<close>.
\<close>

definition free_ref :: "world \<Rightarrow> addr \<Rightarrow> world outcome" where
  "free_ref w r =
     (if r = NULL then Ok w
      else case refs w r of
        None \<Rightarrow> Fault
      | Some R \<Rightarrow>
          if refCount R \<noteq> 0 then Fault
          else if freeFunc R = NULL then Fault
          else Ok (w\<lparr>calls := calls w @ [(freeFunc R, data R)], refs := (refs w)(r := None)\<rparr>))"

text \<open>
  \<^verbatim>\<open>SMART_PTR_delete\<close>. \<open>lockResult\<close> is what \<^verbatim>\<open>Lock(handle->lock)\<close> returns; the source
  drops that value, so the right-hand side never reads it. The statement
  \<^verbatim>\<open>handle->ref == NULL;\<close> after \<^verbatim>\<open>free_ref\<close> is a comparison and changes nothing.
\<close>

definition SMART_PTR_delete :: "world \<Rightarrow> LOCK_RESULT \<Rightarrow> SMART_PTR option \<Rightarrow> world outcome" where
  "SMART_PTR_delete w lockResult handle =
     (case handle of
        None \<Rightarrow> Ok w
      | Some h \<Rightarrow>
          if ref h \<noteq> NULL then
            (case refs w (ref h) of
               None \<Rightarrow> Fault
             | Some R \<Rightarrow>
                 let rc = refCount R - 1;
                     w1 = w\<lparr>refs := (refs w)(ref h \<mapsto> R\<lparr>refCount := rc\<rparr>)\<rparr>
                 in if rc < 0 then Fault
                    else if rc = 0 then free_ref w1 (ref h)
                    else Ok w1)
          else Ok w)"

text \<open>
  \<^verbatim>\<open>SMART_PTR_create\<close>. \<open>calloc_ok\<close> says whether the handle was allocated, \<open>lock_init\<close> is
  what \<^verbatim>\<open>Lock_Init()\<close> returns, \<open>malloc_ref\<close> what \<^verbatim>\<open>malloc(sizeof(SMART_PTR_REF))\<close> returns
  (each \<open>NULL\<close> on failure), \<open>lockResult\<close> is handed to the \<^verbatim>\<open>SMART_PTR_delete\<close> of the
  failure paths.
\<close>

definition SMART_PTR_create ::
  "world \<Rightarrow> bool \<Rightarrow> addr \<Rightarrow> addr \<Rightarrow> LOCK_RESULT \<Rightarrow> addr \<Rightarrow> addr \<Rightarrow> (world \<times> SMART_PTR option) outcome" where
  "SMART_PTR_create w calloc_ok lock_init malloc_ref lockResult ptr free_func =
     (if free_func = NULL then Ok (w, None)
      else if \<not> calloc_ok then Ok (w, None)
      else if lock_init = NULL then
        and_then (SMART_PTR_delete w lockResult (Some \<lparr>lock = NULL, ref = NULL\<rparr>))
          (\<lambda>w1. Ok (w1, None))
      else if malloc_ref = NULL then
        and_then (SMART_PTR_delete w lockResult (Some \<lparr>lock = lock_init, ref = NULL\<rparr>))
          (\<lambda>w1. Ok (w1, None))
      else Ok (w\<lparr>refs := (refs w)(malloc_ref \<mapsto>
                   \<lparr>refCount = 1, data = ptr, freeFunc = free_func\<rparr>)\<rparr>,
               Some \<lparr>lock = lock_init, ref = malloc_ref\<rparr>))"

text \<open>
  \<^verbatim>\<open>SMART_PTR_copy\<close>. \<open>malloc_ok\<close> says whether the copy was allocated, \<open>lockResult\<close> is
  what \<^verbatim>\<open>Lock(handle->lock)\<close> returns. The increment is a signed one: at \<open>INT_MAX\<close> it has no
  defined result.
\<close>

definition SMART_PTR_copy ::
  "world \<Rightarrow> bool \<Rightarrow> LOCK_RESULT \<Rightarrow> SMART_PTR option \<Rightarrow> (world \<times> SMART_PTR option) outcome" where
  "SMART_PTR_copy w malloc_ok lockResult handle =
     (case handle of
        None \<Rightarrow> Ok (w, None)
      | Some h \<Rightarrow>
          if lock h = NULL then Fault
          else if \<not> malloc_ok then Ok (w, None)
          else if lockResult \<noteq> LOCK_OK then Ok (w, None)
          else (case deref w (ref h) of
                  None \<Rightarrow> Fault
                | Some R \<Rightarrow>
                    if refCount R = INT_MAX then Fault
                    else Ok (w\<lparr>refs := (refs w)(ref h \<mapsto> R\<lparr>refCount := refCount R + 1\<rparr>)\<rparr>,
                             Some \<lparr>lock = lock h, ref = ref h\<rparr>)))"

text \<open>
  \<^verbatim>\<open>SMART_PTR_get\<close>, with the results of its \<^verbatim>\<open>Lock\<close> and \<^verbatim>\<open>Unlock\<close>, and
  \<^verbatim>\<open>SMART_PTR_has_value\<close>.
\<close>

definition SMART_PTR_get ::
  "world \<Rightarrow> LOCK_RESULT \<Rightarrow> LOCK_RESULT \<Rightarrow> SMART_PTR option \<Rightarrow> addr outcome" where
  "SMART_PTR_get w lockResult unlockResult handle =
     (case handle of
        None \<Rightarrow> Ok NULL
      | Some h \<Rightarrow>
          if lockResult \<noteq> LOCK_OK then Ok NULL
          else (case deref w (ref h) of
                  None \<Rightarrow> Fault
                | Some R \<Rightarrow> if unlockResult \<noteq> LOCK_OK then Ok NULL else Ok (data R)))"

definition SMART_PTR_has_value ::
  "world \<Rightarrow> LOCK_RESULT \<Rightarrow> LOCK_RESULT \<Rightarrow> SMART_PTR option \<Rightarrow> bool outcome" where
  "SMART_PTR_has_value w lockResult unlockResult handle =
     and_then (SMART_PTR_get w lockResult unlockResult handle) (\<lambda>p. Ok (p \<noteq> NULL))"

section \<open>mru\_cache.c: the cache\<close>

definition MRU_CACHE_MAX_ID_LEN :: nat where
  "MRU_CACHE_MAX_ID_LEN = 300"

text \<open>
  A C string is the list of its bytes before the terminator. \<^verbatim>\<open>strncmp\<close> compares at most
  \<open>n\<close> bytes, as unsigned values, and stops at the end of either string.
\<close>

fun strncmp :: "string \<Rightarrow> string \<Rightarrow> nat \<Rightarrow> int" where
  "strncmp a b 0 = 0"
| "strncmp [] [] (Suc n) = 0"
| "strncmp [] (y # ys) (Suc n) = - 1"
| "strncmp (x # xs) [] (Suc n) = 1"
| "strncmp (x # xs) (y # ys) (Suc n) =
     (if x = y then strncmp xs ys n
      else if (of_char x :: nat) < of_char y then - 1 else 1)"

text \<open>\<^verbatim>\<open>time_t\<close> counts seconds.\<close>

type_synonym time_t = int

text \<open>
  Modelled from the spec: \<^verbatim>\<open>get_difftime\<close> of agenttime.h, which is not among the sources, is
  the clock primitive \<^verbatim>\<open>elapsedSeconds(from, to)\<close>: the seconds from its second argument to its
  first, as a \<^verbatim>\<open>double\<close>.
\<close>

definition get_difftime :: "time_t \<Rightarrow> time_t \<Rightarrow> real" where
  "get_difftime stop start = real_of_int (stop - start)"

text \<open>
  An entry. Its \<^verbatim>\<open>link\<close> field is its place in the list below. \<open>entry_id\<close> is the field
  \<^verbatim>\<open>id\<close>, a pointer that is null until the string has been copied.
\<close>

record MRU_CACHE_ENTRY =
  entry_id :: "string option"
  dataHandle :: "SMART_PTR option"
  created :: time_t
  expiryInSec :: int

text \<open>
  The cache. \<open>dlist\<close> is the field \<^verbatim>\<open>list\<close>: the doubly linked list read from
  \<^verbatim>\<open>list.Flink\<close> on, so that its first element is the node after the list head and its last
  element is \<^verbatim>\<open>list.Blink\<close>. A pointer to an entry of the cache is the position of the entry
  in \<open>dlist\<close>.
\<close>

record MRU_CACHE =
  maxItems :: int
  numItems :: int
  dlist :: "MRU_CACHE_ENTRY list"

text \<open>
  The status a call returns: \<open>Success\<close> is 0, \<open>Failure\<close> is \<^verbatim>\<open>__FAILURE__\<close>, a macro of a
  header outside the sources that is never 0.
\<close>

datatype status = Success | Failure

text \<open>
  What a call of the cache reads from outside: the results of the locks, of the allocations
  and of the clock. \<open>now k\<close> is the clock at the \<open>k\<close>-th place the call reads it.
\<close>

record env =
  hv_lock :: LOCK_RESULT
  hv_unlock :: LOCK_RESULT
  calloc_entry :: bool
  now :: "nat \<Rightarrow> time_t"
  copy_malloc :: bool
  copy_lock :: LOCK_RESULT
  strcpy_ok :: bool
  delete_lock :: LOCK_RESULT

definition free_entry :: "world \<Rightarrow> LOCK_RESULT \<Rightarrow> MRU_CACHE_ENTRY option \<Rightarrow> world outcome" where
  "free_entry w lockResult entry =
     (case entry of
        None \<Rightarrow> Ok w
      | Some e \<Rightarrow> SMART_PTR_delete w lockResult (dataHandle e))"

text \<open>
  \<^verbatim>\<open>remove_entry\<close> and \<^verbatim>\<open>insert_at_start\<close>, each with the assert that follows the change of
  \<open>numItems\<close>. A position outside the list stands for a pointer to no node of the list; the
  increment of \<open>numItems\<close> at \<open>INT_MAX\<close> has no defined result.
\<close>

definition remove_entry :: "MRU_CACHE \<Rightarrow> nat option \<Rightarrow> MRU_CACHE outcome" where
  "remove_entry instance entry =
     (case entry of
        None \<Rightarrow> Ok instance
      | Some i \<Rightarrow>
          if \<not> i < length (dlist instance) then Fault
          else let n = numItems instance - 1
               in if n < 0 then Fault
                  else Ok (instance\<lparr>dlist := take i (dlist instance) @ drop (Suc i) (dlist instance),
                                    numItems := n\<rparr>))"

definition insert_at_start :: "MRU_CACHE \<Rightarrow> MRU_CACHE_ENTRY option \<Rightarrow> MRU_CACHE outcome" where
  "insert_at_start instance entry =
     (case entry of
        None \<Rightarrow> Ok instance
      | Some e \<Rightarrow>
          if numItems instance = INT_MAX then Fault
          else let n = numItems instance + 1
               in if \<not> 0 < n then Fault
                  else Ok (instance\<lparr>dlist := e # dlist instance, numItems := n\<rparr>))"

text \<open>\<open>t\<close> is what \<^verbatim>\<open>get_time(NULL)\<close> returns; the result is the C truth value.\<close>

definition is_expired :: "time_t \<Rightarrow> MRU_CACHE_ENTRY \<Rightarrow> bool" where
  "is_expired t entry =
     (if expiryInSec entry < 0 then False
      else real_of_int (expiryInSec entry) < get_difftime t (created entry))"

text \<open>
  \<^verbatim>\<open>find\<close> is \<open>find_entry\<close> here, \<open>find\<close> being a function on lists already. Its arguments
  \<^verbatim>\<open>list\<close> and \<^verbatim>\<open>entry\<close> are addresses of a field and of a local variable, never null. First
  the loop, from the node \<open>currentNode\<close> at position \<open>i\<close>. The \<^verbatim>\<open>break\<close> stands
  outside the \<^verbatim>\<open>if\<close>, so the loop ends in its first round and the rest of the list is not
  read.
\<close>

fun find_loop :: "string \<Rightarrow> MRU_CACHE_ENTRY list \<Rightarrow> nat \<Rightarrow> nat option outcome" where
  "find_loop s [] i = Ok None"
| "find_loop s (current # rest) i =
     (case entry_id current of
        None \<Rightarrow> Fault
      | Some cid \<Rightarrow>
          if strncmp s cid MRU_CACHE_MAX_ID_LEN = 0 then Ok (Some i) else Ok None)"

definition find_entry ::
  "string option \<Rightarrow> MRU_CACHE_ENTRY list \<Rightarrow> (status \<times> nat option) outcome" where
  "find_entry id_arg list_arg =
     (case id_arg of
        None \<Rightarrow> Ok (Failure, None)
      | Some s \<Rightarrow> and_then (find_loop s list_arg 0) (\<lambda>entry. Ok (Success, entry)))"

text \<open>
  The lookup in the words of the spec, to compare \<open>find_entry\<close> with: a scan of the whole
  list that compares up to 300 bytes, the first match wins.
\<close>

fun find_spec :: "string \<Rightarrow> MRU_CACHE_ENTRY list \<Rightarrow> nat \<Rightarrow> nat option" where
  "find_spec s [] i = None"
| "find_spec s (current # rest) i =
     (if (case entry_id current of
            None \<Rightarrow> False
          | Some cid \<Rightarrow> strncmp s cid MRU_CACHE_MAX_ID_LEN = 0)
      then Some i else find_spec s rest (Suc i))"

definition MRU_CACHE_new :: "bool \<Rightarrow> int \<Rightarrow> MRU_CACHE option" where
  "MRU_CACHE_new calloc_ok max_items =
     (if max_items < 0 then None
      else if \<not> calloc_ok then None
      else Some \<lparr>maxItems = max_items, numItems = 0, dlist = []\<rparr>)"

text \<open>
  \<^verbatim>\<open>MRU_CACHE_add\<close>, in three parts. \<open>add_new\<close> is the branch \<^verbatim>\<open>entry == NULL\<close>: it returns
  the new entry, or \<open>None\<close> where the source returns \<^verbatim>\<open>__FAILURE__\<close>.
\<close>

definition add_new ::
  "world \<Rightarrow> env \<Rightarrow> string \<Rightarrow> SMART_PTR option \<Rightarrow> int \<Rightarrow> (world \<times> MRU_CACHE_ENTRY option) outcome" where
  "add_new w e s data_arg expiryTimeSec =
     (if \<not> calloc_entry e then Ok (w, None)
      else and_then (SMART_PTR_copy w (copy_malloc e) (copy_lock e) data_arg)
        (\<lambda>(w1, c).
           let entry = \<lparr>entry_id = None, dataHandle = c, created = now e 0,
                        expiryInSec = expiryTimeSec\<rparr>
           in if c = None then
                and_then (free_entry w1 (delete_lock e) (Some entry)) (\<lambda>w2. Ok (w2, None))
              else if \<not> strcpy_ok e then
                and_then (free_entry w1 (delete_lock e) (Some entry)) (\<lambda>w2. Ok (w2, None))
              else Ok (w1, Some (entry\<lparr>entry_id := Some s\<rparr>))))"

text \<open>
  \<open>add_update\<close> is the \<^verbatim>\<open>else\<close> branch, for the entry at position \<open>i\<close>: it returns the cache
  after \<^verbatim>\<open>remove_entry\<close> together with the entry, or \<open>None\<close> where the source returns
  \<^verbatim>\<open>__FAILURE__\<close>.
\<close>

definition add_update ::
  "world \<Rightarrow> env \<Rightarrow> MRU_CACHE \<Rightarrow> nat \<Rightarrow> SMART_PTR option \<Rightarrow> int
     \<Rightarrow> (world \<times> (MRU_CACHE \<times> MRU_CACHE_ENTRY) option) outcome" where
  "add_update w e instance i data_arg expiryTimeSec =
     (if \<not> i < length (dlist instance) then Fault
      else and_then (SMART_PTR_copy w (copy_malloc e) (copy_lock e) data_arg)
        (\<lambda>(w1, c).
           if c = None then Ok (w1, None)
           else
             let old = dlist instance ! i
             in and_then
                  (if dataHandle old \<noteq> None
                   then SMART_PTR_delete w1 (delete_lock e) (dataHandle old) else Ok w1)
                  (\<lambda>w2.
                     let entry = old\<lparr>created := now e 0, expiryInSec := expiryTimeSec,
                                     dataHandle := c\<rparr>;
                         inst1 = instance\<lparr>dlist := (dlist instance)[i := entry]\<rparr>
                     in and_then (remove_entry inst1 (Some i))
                          (\<lambda>inst2. Ok (w2, Some (inst2, entry))))))"

text \<open>
  \<open>add_insert\<close> is the end of the function: \<^verbatim>\<open>insert_at_start\<close>, the assert, and the eviction
  of the entry at \<^verbatim>\<open>list.Blink\<close> when the cache is over capacity.
\<close>

definition add_insert ::
  "world \<Rightarrow> env \<Rightarrow> MRU_CACHE \<Rightarrow> MRU_CACHE_ENTRY \<Rightarrow> (world \<times> MRU_CACHE option \<times> status) outcome" where
  "add_insert w e instance entry =
     and_then (insert_at_start instance (Some entry))
       (\<lambda>inst1.
          if numItems inst1 < 0 then Fault
          else if maxItems inst1 < numItems inst1 then
            let last_pos = length (dlist inst1) - 1;
                lastEntry = dlist inst1 ! last_pos
            in and_then (remove_entry inst1 (Some last_pos))
                 (\<lambda>inst2. and_then (free_entry w (delete_lock e) (Some lastEntry))
                    (\<lambda>w1. Ok (w1, Some inst2, Success)))
          else Ok (w, Some inst1, Success))"

definition MRU_CACHE_add ::
  "world \<Rightarrow> env \<Rightarrow> MRU_CACHE option \<Rightarrow> string option \<Rightarrow> SMART_PTR option \<Rightarrow> int
     \<Rightarrow> (world \<times> MRU_CACHE option \<times> status) outcome" where
  "MRU_CACHE_add w e handle id_arg data_arg expiryTimeSec =
     (case handle of
        None \<Rightarrow> Ok (w, handle, Failure)
      | Some instance \<Rightarrow>
          (case id_arg of
             None \<Rightarrow> Ok (w, handle, Failure)
           | Some s \<Rightarrow>
               if MRU_CACHE_MAX_ID_LEN < length s then Ok (w, handle, Failure)
               else and_then (SMART_PTR_has_value w (hv_lock e) (hv_unlock e) data_arg)
                 (\<lambda>has. if \<not> has then Ok (w, handle, Success)
                    else and_then (find_entry id_arg (dlist instance))
                      (\<lambda>(ret, entry).
                         if ret \<noteq> Success then Ok (w, handle, Failure)
                         else (case entry of
                                 None \<Rightarrow>
                                   and_then (add_new w e s data_arg expiryTimeSec)
                                     (\<lambda>(w1, made).
                                        case made of
                                          None \<Rightarrow> Ok (w1, handle, Failure)
                                        | Some new_entry \<Rightarrow> add_insert w1 e instance new_entry)
                               | Some i \<Rightarrow>
                                   and_then (add_update w e instance i data_arg expiryTimeSec)
                                     (\<lambda>(w1, upd).
                                        case upd of
                                          None \<Rightarrow> Ok (w1, handle, Failure)
                                        | Some (inst2, entry1) \<Rightarrow> add_insert w1 e inst2 entry1))))))"

text \<open>
  \<^verbatim>\<open>get_from_cache\<close>. The out parameter \<^verbatim>\<open>data\<close> is \<open>None\<close> when the pointer is null and
  \<open>Some v\<close> when it points to a slot that holds the handle \<open>v\<close>; the last component of the
  result is the slot after the call.
\<close>

definition get_from_cache ::
  "world \<Rightarrow> env \<Rightarrow> MRU_CACHE option \<Rightarrow> bool \<Rightarrow> string option \<Rightarrow> SMART_PTR option option
     \<Rightarrow> (world \<times> MRU_CACHE option \<times> status \<times> SMART_PTR option option) outcome" where
  "get_from_cache w e handle includeExpired id_arg data_arg =
     (case handle of
        None \<Rightarrow> Ok (w, handle, Failure, data_arg)
      | Some instance \<Rightarrow>
          (case id_arg of
             None \<Rightarrow> Ok (w, handle, Failure, data_arg)
           | Some s \<Rightarrow>
               if MRU_CACHE_MAX_ID_LEN < length s then Ok (w, handle, Failure, data_arg)
               else if data_arg = None then Ok (w, handle, Failure, data_arg)
               else and_then (find_entry id_arg (dlist instance))
                 (\<lambda>(ret, entry).
                    if ret \<noteq> Success then Ok (w, handle, Failure, data_arg)
                    else (case entry of
                            None \<Rightarrow> Ok (w, handle, Success, Some None)
                          | Some i \<Rightarrow>
                              if \<not> i < length (dlist instance) then Fault
                              else
                                let found = dlist instance ! i
                                in if \<not> includeExpired \<and> is_expired (now e 0) found
                                   then Ok (w, handle, Success, Some None)
                                   else and_then (remove_entry instance (Some i))
                                     (\<lambda>inst1. and_then (insert_at_start inst1 (Some found))
                                        (\<lambda>inst2. and_then
                                           (SMART_PTR_copy w (copy_malloc e) (copy_lock e)
                                              (dataHandle found))
                                           (\<lambda>(w1, c). Ok (w1, Some inst2, Success, Some c))))))))"

definition MRU_CACHE_get ::
  "world \<Rightarrow> env \<Rightarrow> MRU_CACHE option \<Rightarrow> string option \<Rightarrow> SMART_PTR option option
     \<Rightarrow> (world \<times> MRU_CACHE option \<times> status \<times> SMART_PTR option option) outcome" where
  "MRU_CACHE_get w e handle id_arg data_arg = get_from_cache w e handle False id_arg data_arg"

definition MRU_CACHE_get_include_expired ::
  "world \<Rightarrow> env \<Rightarrow> MRU_CACHE option \<Rightarrow> string option \<Rightarrow> SMART_PTR option option
     \<Rightarrow> (world \<times> MRU_CACHE option \<times> status \<times> SMART_PTR option option) outcome" where
  "MRU_CACHE_get_include_expired w e handle id_arg data_arg =
     get_from_cache w e handle True id_arg data_arg"

text \<open>
  \<^verbatim>\<open>MRU_CACHE_size\<close>: the out parameter is \<open>None\<close> when the pointer is null, and the second
  component of the result is what it points to after the call.
\<close>

definition MRU_CACHE_size :: "MRU_CACHE option \<Rightarrow> int option \<Rightarrow> status \<times> int option" where
  "MRU_CACHE_size handle size_arg =
     (case handle of
        None \<Rightarrow> (Failure, size_arg)
      | Some instance \<Rightarrow>
          (case size_arg of
             None \<Rightarrow> (Failure, size_arg)
           | Some old \<Rightarrow> (Success, Some (numItems instance))))"

text \<open>
  The loop of \<^verbatim>\<open>MRU_CACHE_prune\<close>. The last argument holds the nodes from \<^verbatim>\<open>current\<close> to the
  end of the list, \<open>i\<close> is the position of \<^verbatim>\<open>current\<close> in the list of the cache, and \<open>k\<close>
  counts the rounds: \<^verbatim>\<open>is_expired\<close> reads the clock anew in each.
\<close>

fun prune_loop ::
  "world \<Rightarrow> env \<Rightarrow> MRU_CACHE \<Rightarrow> nat \<Rightarrow> nat \<Rightarrow> MRU_CACHE_ENTRY list \<Rightarrow> (world \<times> MRU_CACHE) outcome" where
  "prune_loop w e instance k i [] = Ok (w, instance)"
| "prune_loop w e instance k i (entry # rest) =
     (if is_expired (now e k) entry then
        (case remove_entry instance (Some i) of
           Fault \<Rightarrow> Fault
         | Ok inst1 \<Rightarrow>
             (case free_entry w (delete_lock e) (Some entry) of
                Fault \<Rightarrow> Fault
              | Ok w1 \<Rightarrow> prune_loop w1 e inst1 (Suc k) i rest))
      else prune_loop w e instance (Suc k) (Suc i) rest)"

definition MRU_CACHE_prune ::
  "world \<Rightarrow> env \<Rightarrow> MRU_CACHE option \<Rightarrow> (world \<times> MRU_CACHE option \<times> status) outcome" where
  "MRU_CACHE_prune w e handle =
     (case handle of
        None \<Rightarrow> Ok (w, handle, Failure)
      | Some instance \<Rightarrow>
          and_then (prune_loop w e instance 0 0 (dlist instance))
            (\<lambda>(w1, inst1). Ok (w1, Some inst1, Success)))"

section \<open>Caches and callers the theorems speak of\<close>

text \<open>
  The two counters of a cache agree with its list: \<open>numItems\<close> is the length of the list and
  does not exceed \<open>maxItems\<close>.
\<close>

definition cache_ok :: "MRU_CACHE \<Rightarrow> bool" where
  "cache_ok instance \<longleftrightarrow>
     numItems instance = int (length (dlist instance)) \<and> numItems instance \<le> maxItems instance"

text \<open>
  A caller that makes one call after the other, whatever status each returns; every call comes
  with its own environment and arguments.
\<close>

datatype call =
    Add env "string option" "SMART_PTR option" int
  | Get env bool "string option" "SMART_PTR option option"
  | Prune env

fun run_calls :: "world \<Rightarrow> MRU_CACHE option \<Rightarrow> call list \<Rightarrow> (world \<times> MRU_CACHE option) outcome" where
  "run_calls w handle [] = Ok (w, handle)"
| "run_calls w handle (Add e id_arg data_arg expiryTimeSec # later) =
     (case MRU_CACHE_add w e handle id_arg data_arg expiryTimeSec of
        Fault \<Rightarrow> Fault
      | Ok (w1, h1, st) \<Rightarrow> run_calls w1 h1 later)"
| "run_calls w handle (Get e includeExpired id_arg data_arg # later) =
     (case get_from_cache w e handle includeExpired id_arg data_arg of
        Fault \<Rightarrow> Fault
      | Ok (w1, h1, st, out) \<Rightarrow> run_calls w1 h1 later)"
| "run_calls w handle (Prune e # later) =
     (case MRU_CACHE_prune w e handle of
        Fault \<Rightarrow> Fault
      | Ok (w1, h1, st) \<Rightarrow> run_calls w1 h1 later)"

text \<open>
  The entries of a list that are not expired, each judged by the clock as it stands when the
  loop of \<^verbatim>\<open>MRU_CACHE_prune\<close> comes to its position; they stay in the order of the list.
\<close>

definition unexpired :: "(nat \<Rightarrow> time_t) \<Rightarrow> MRU_CACHE_ENTRY list \<Rightarrow> MRU_CACHE_ENTRY list" where
  "unexpired clock l = map snd (filter (\<lambda>(j, en). \<not> is_expired (clock j) en) (enumerate 0 l))"

text \<open>
  The handles of a list of entries are backed by the shared objects: every shared object that
  entries of the list refer to is live, has a free function, and counts at least as many
  references as there are such entries (handles outside the cache account for the rest).
\<close>

definition refers :: "addr \<Rightarrow> MRU_CACHE_ENTRY \<Rightarrow> bool" where
  "refers r entry = (case dataHandle entry of None \<Rightarrow> False | Some h \<Rightarrow> ref h = r)"

definition holders :: "addr \<Rightarrow> MRU_CACHE_ENTRY list \<Rightarrow> nat" where
  "holders r l = length (filter (refers r) l)"

definition handles_ok :: "world \<Rightarrow> MRU_CACHE_ENTRY list \<Rightarrow> bool" where
  "handles_ok w l \<longleftrightarrow>
     (\<forall>r. r \<noteq> NULL \<longrightarrow> 0 < holders r l \<longrightarrow>
        (\<exists>R. refs w r = Some R \<and> int (holders r l) \<le> refCount R \<and> freeFunc R \<noteq> NULL))"

text \<open>
  An environment in which every lock and every allocation succeeds and the clock stands at
  \<open>t\<close>.
\<close>

definition all_ok :: "time_t \<Rightarrow> env" where
  "all_ok t = \<lparr>hv_lock = LOCK_OK, hv_unlock = LOCK_OK, calloc_entry = True, now = (\<lambda>k. t),
              copy_malloc = True, copy_lock = LOCK_OK, strcpy_ok = True, delete_lock = LOCK_OK\<rparr>"

section \<open>Basic facts\<close>

lemma strncmp_eq_0_iff: "strncmp a b n = 0 \<longleftrightarrow> take n a = take n b"
  by (induction a b n rule: strncmp.induct) auto

lemma and_then_Ok_iff: "and_then m f = Ok y \<longleftrightarrow> (\<exists>x. m = Ok x \<and> f x = Ok y)"
  by (cases m) auto

lemma find_entry_Nil: "find_entry (Some s) [] = Ok (Success, None)"
  by (simp add: find_entry_def)

lemma find_entry_Cons:
  "find_entry (Some s) (c # rest) =
     (case entry_id c of
        None \<Rightarrow> Fault
      | Some cid \<Rightarrow>
          Ok (Success, if take MRU_CACHE_MAX_ID_LEN s = take MRU_CACHE_MAX_ID_LEN cid
                       then Some 0 else None))"
  by (simp add: find_entry_def strncmp_eq_0_iff split: option.splits)

lemma find_entry_Some_head:
  "find_entry x l = Ok (r, Some i) \<Longrightarrow> i = 0 \<and> l \<noteq> [] \<and> r = Success"
  by (cases l; cases x) (auto simp: find_entry_def split: option.splits if_splits)

lemma find_entry_status:
  "find_entry (Some s) l = Ok (r, p) \<Longrightarrow> r = Success"
  by (cases l) (auto simp: find_entry_def split: option.splits if_splits)

subsection \<open>The parts of adding\<close>

lemma copy_cases:
  assumes "SMART_PTR_copy w m l d = Ok (w1, c)"
  shows "(c = None \<and> w1 = w) \<or>
         (\<exists>h R. d = Some h \<and> c = Some h \<and> deref w (ref h) = Some R \<and> refCount R \<noteq> INT_MAX
            \<and> w1 = w\<lparr>refs := (refs w)(ref h \<mapsto> R\<lparr>refCount := refCount R + 1\<rparr>)\<rparr>)"
  using assms by (auto simp: SMART_PTR_copy_def split: option.splits if_splits)

lemma copy_None: "SMART_PTR_copy w m l d = Ok (w1, None) \<Longrightarrow> w1 = w"
  by (auto simp: SMART_PTR_copy_def split: option.splits if_splits)

lemma add_new_cases:
  assumes "add_new w e s d x = Ok (w1, r)"
  shows "(r = None \<and> w1 = w) \<or>
         (\<exists>c wc. SMART_PTR_copy w (copy_malloc e) (copy_lock e) d = Ok (wc, Some c) \<and>
            ((r = None \<and> SMART_PTR_delete wc (delete_lock e) (Some c) = Ok w1) \<or>
             (w1 = wc \<and> r = Some \<lparr>entry_id = Some s, dataHandle = Some c, created = now e 0,
                         expiryInSec = x\<rparr>)))"
proof (cases "calloc_entry e")
  case False
  with assms show ?thesis by (simp add: add_new_def)
next
  case True
  with assms obtain wc c where cp: "SMART_PTR_copy w (copy_malloc e) (copy_lock e) d = Ok (wc, c)"
    and rest: "(let entry = \<lparr>entry_id = None, dataHandle = c, created = now e 0, expiryInSec = x\<rparr>
           in if c = None then
                and_then (free_entry wc (delete_lock e) (Some entry)) (\<lambda>w2. Ok (w2, None))
              else if \<not> strcpy_ok e then
                and_then (free_entry wc (delete_lock e) (Some entry)) (\<lambda>w2. Ok (w2, None))
              else Ok (wc, Some (entry\<lparr>entry_id := Some s\<rparr>))) = Ok (w1, r)"
    by (auto simp: add_new_def and_then_Ok_iff)
  show ?thesis
  proof (cases c)
    case None
    with cp have "wc = w" by (simp add: copy_None)
    with None rest show ?thesis
      by (auto simp: free_entry_def SMART_PTR_delete_def and_then_Ok_iff)
  next
    case (Some h)
    with cp rest show ?thesis
      by (auto simp: free_entry_def and_then_Ok_iff Let_def split: if_splits)
  qed
qed

lemma copy_then_delete:
  assumes cp: "SMART_PTR_copy w m l d = Ok (wc, Some c)"
    and live: "\<And>h R. d = Some h \<Longrightarrow> deref w (ref h) = Some R \<Longrightarrow> refCount R \<noteq> 0"
    and del: "SMART_PTR_delete wc l2 (Some c) = Ok w1"
  shows "w1 = w"
proof -
  from copy_cases [OF cp] obtain h R where h: "d = Some h" "c = h"
    and R: "deref w (ref h) = Some R"
    and wc: "wc = w\<lparr>refs := (refs w)(ref h \<mapsto> R\<lparr>refCount := refCount R + 1\<rparr>)\<rparr>"
    by auto
  from live [OF h(1) R] have nz: "refCount R \<noteq> 0" .
  from R have nn: "ref h \<noteq> NULL" and rr: "refs w (ref h) = Some R"
    by (auto simp: deref_def split: if_splits)
  from rr have "(refs w)(ref h \<mapsto> R) = refs w" by (rule map_upd_triv)
  with del h wc nz nn show ?thesis
    by (auto simp: SMART_PTR_delete_def Let_def split: if_splits)
qed

lemma remove_entry_Ok:
  "remove_entry inst (Some i) = Ok inst' \<longleftrightarrow>
     i < length (dlist inst) \<and> 0 < numItems inst \<and>
     inst' = inst\<lparr>dlist := take i (dlist inst) @ drop (Suc i) (dlist inst),
                  numItems := numItems inst - 1\<rparr>"
  by (auto simp: remove_entry_def Let_def)

lemma insert_at_start_Ok:
  "insert_at_start inst (Some en) = Ok inst' \<longleftrightarrow>
     numItems inst \<noteq> INT_MAX \<and> 0 \<le> numItems inst \<and>
     inst' = inst\<lparr>dlist := en # dlist inst, numItems := numItems inst + 1\<rparr>"
  by (auto simp: insert_at_start_def Let_def)


lemma add_update_cases:
  assumes "add_update w e inst i d x = Ok (w1, r)"
  shows "i < length (dlist inst) \<and>
         ((r = None \<and> w1 = w) \<or>
          (\<exists>c wc. SMART_PTR_copy w (copy_malloc e) (copy_lock e) d = Ok (wc, Some c) \<and>
             (if dataHandle (dlist inst ! i) \<noteq> None
              then SMART_PTR_delete wc (delete_lock e) (dataHandle (dlist inst ! i)) = Ok w1
              else w1 = wc) \<and>
             0 < numItems inst \<and>
             r = Some (inst\<lparr>dlist := take i (dlist inst) @ drop (Suc i) (dlist inst),
                            numItems := numItems inst - 1\<rparr>,
                       (dlist inst ! i)\<lparr>created := now e 0, expiryInSec := x,
                                         dataHandle := Some c\<rparr>)))"
proof -
  from assms have i: "i < length (dlist inst)"
    by (auto simp: add_update_def split: if_splits)
  with assms obtain wc c where cp: "SMART_PTR_copy w (copy_malloc e) (copy_lock e) d = Ok (wc, c)"
    and rest: "(if c = None then Ok (wc, None)
           else
             let old = dlist inst ! i
             in and_then
                  (if dataHandle old \<noteq> None
                   then SMART_PTR_delete wc (delete_lock e) (dataHandle old) else Ok wc)
                  (\<lambda>w2.
                     let entry = old\<lparr>created := now e 0, expiryInSec := x,
                                     dataHandle := c\<rparr>;
                         inst1 = inst\<lparr>dlist := (dlist inst)[i := entry]\<rparr>
                     in and_then (remove_entry inst1 (Some i))
                          (\<lambda>inst2. Ok (w2, Some (inst2, entry))))) = Ok (w1, r)"
    by (auto simp: add_update_def and_then_Ok_iff)
  show ?thesis
  proof (cases c)
    case None
    with cp have "wc = w" by (simp add: copy_None)
    with None rest i show ?thesis by simp
  next
    case (Some h)
    with cp rest i show ?thesis
      by (auto simp: and_then_Ok_iff Let_def remove_entry_Ok split: if_splits)
  qed
qed

lemma add_insert_cases:
  assumes "add_insert w e inst en = Ok (w1, h', st)"
  shows "st = Success \<and> numItems inst \<noteq> INT_MAX \<and> 0 \<le> numItems inst \<and>
         (if maxItems inst < numItems inst + 1
          then h' = Some (inst\<lparr>dlist := butlast (en # dlist inst), numItems := numItems inst\<rparr>)
               \<and> free_entry w (delete_lock e) (Some (last (en # dlist inst))) = Ok w1
          else h' = Some (inst\<lparr>dlist := en # dlist inst, numItems := numItems inst + 1\<rparr>)
               \<and> w1 = w)"
proof -
  have nth: "(en # dlist inst) ! length (dlist inst) = last (en # dlist inst)"
    by (simp add: last_conv_nth)
  have bl: "take (length (dlist inst)) (en # dlist inst) = butlast (en # dlist inst)"
    by (simp add: butlast_conv_take)
  from assms show ?thesis
    by (auto simp: add_insert_def and_then_Ok_iff insert_at_start_Ok remove_entry_Ok Let_def
        nth bl simp del: last.simps butlast.simps take_Suc_Cons split: if_splits)
qed


lemma add_cases:
  assumes "MRU_CACHE_add w e (Some inst) (Some s) d x = Ok (w', h', st)"
  shows "(st = Failure \<and> h' = Some inst \<and> MRU_CACHE_MAX_ID_LEN < length s \<and> w' = w)
       \<or> (st = Success \<and> h' = Some inst \<and> w' = w \<and> length s \<le> MRU_CACHE_MAX_ID_LEN
            \<and> SMART_PTR_has_value w (hv_lock e) (hv_unlock e) d = Ok False)
       \<or> (length s \<le> MRU_CACHE_MAX_ID_LEN
            \<and> SMART_PTR_has_value w (hv_lock e) (hv_unlock e) d = Ok True
            \<and> find_entry (Some s) (dlist inst) = Ok (Success, None)
            \<and> (\<exists>wc made. add_new w e s d x = Ok (wc, made) \<and>
                  (case made of
                     None \<Rightarrow> st = Failure \<and> h' = Some inst \<and> w' = wc
                   | Some en \<Rightarrow> add_insert wc e inst en = Ok (w', h', st))))
       \<or> (length s \<le> MRU_CACHE_MAX_ID_LEN
            \<and> SMART_PTR_has_value w (hv_lock e) (hv_unlock e) d = Ok True
            \<and> (\<exists>i wc upd. find_entry (Some s) (dlist inst) = Ok (Success, Some i)
                  \<and> add_update w e inst i d x = Ok (wc, upd) \<and>
                  (case upd of
                     None \<Rightarrow> st = Failure \<and> h' = Some inst \<and> w' = wc
                   | Some (inst2, en) \<Rightarrow> add_insert wc e inst2 en = Ok (w', h', st))))"
proof (cases "MRU_CACHE_MAX_ID_LEN < length s")
  case True
  with assms show ?thesis by (simp add: MRU_CACHE_add_def)
next
  case False
  with assms obtain has where hv: "SMART_PTR_has_value w (hv_lock e) (hv_unlock e) d = Ok has"
    and r1: "(if \<not> has then Ok (w, Some inst, Success)
              else and_then (find_entry (Some s) (dlist inst))
                (\<lambda>(ret, entry).
                   if ret \<noteq> Success then Ok (w, Some inst, Failure)
                   else (case entry of
                           None \<Rightarrow>
                             and_then (add_new w e s d x)
                               (\<lambda>(w1, made).
                                  case made of
                                    None \<Rightarrow> Ok (w1, Some inst, Failure)
                                  | Some new_entry \<Rightarrow> add_insert w1 e inst new_entry)
                         | Some i \<Rightarrow>
                             and_then (add_update w e inst i d x)
                               (\<lambda>(w1, upd).
                                  case upd of
                                    None \<Rightarrow> Ok (w1, Some inst, Failure)
                                  | Some (inst2, entry1) \<Rightarrow> add_insert w1 e inst2 entry1))))
             = Ok (w', h', st)"
    by (auto simp: MRU_CACHE_add_def and_then_Ok_iff)
  show ?thesis
  proof (cases has)
    case False
    with hv r1 \<open>\<not> MRU_CACHE_MAX_ID_LEN < length s\<close> show ?thesis by simp
  next
    case True
    with r1 obtain ret entry where f: "find_entry (Some s) (dlist inst) = Ok (ret, entry)"
      and r2: "(if ret \<noteq> Success then Ok (w, Some inst, Failure)
                   else (case entry of
                           None \<Rightarrow>
                             and_then (add_new w e s d x)
                               (\<lambda>(w1, made).
                                  case made of
                                    None \<Rightarrow> Ok (w1, Some inst, Failure)
                                  | Some new_entry \<Rightarrow> add_insert w1 e inst new_entry)
                         | Some i \<Rightarrow>
                             and_then (add_update w e inst i d x)
                               (\<lambda>(w1, upd).
                                  case upd of
                                    None \<Rightarrow> Ok (w1, Some inst, Failure)
                                  | Some (inst2, entry1) \<Rightarrow> add_insert w1 e inst2 entry1)))
             = Ok (w', h', st)"
      by (auto simp: and_then_Ok_iff)
    from f have ret: "ret = Success" by (rule find_entry_status)
    show ?thesis
    proof (cases entry)
      case None
      with r2 ret obtain wc made where an: "add_new w e s d x = Ok (wc, made)"
        and r3: "(case made of
                    None \<Rightarrow> Ok (wc, Some inst, Failure)
                  | Some new_entry \<Rightarrow> add_insert wc e inst new_entry) = Ok (w', h', st)"
        by (auto simp: and_then_Ok_iff)
      from r3 have "case made of
                     None \<Rightarrow> st = Failure \<and> h' = Some inst \<and> w' = wc
                   | Some en \<Rightarrow> add_insert wc e inst en = Ok (w', h', st)"
        by (cases made) auto
      with an f ret None hv True \<open>\<not> MRU_CACHE_MAX_ID_LEN < length s\<close> show ?thesis
        by auto
    next
      case (Some i)
      with r2 ret obtain wc upd where au: "add_update w e inst i d x = Ok (wc, upd)"
        and r3: "(case upd of
                    None \<Rightarrow> Ok (wc, Some inst, Failure)
                  | Some (inst2, entry1) \<Rightarrow> add_insert wc e inst2 entry1) = Ok (w', h', st)"
        by (auto simp: and_then_Ok_iff)
      from r3 have "case upd of
                     None \<Rightarrow> st = Failure \<and> h' = Some inst \<and> w' = wc
                   | Some (inst2, en) \<Rightarrow> add_insert wc e inst2 en = Ok (w', h', st)"
        by (cases upd) auto
      with au f ret Some hv True \<open>\<not> MRU_CACHE_MAX_ID_LEN < length s\<close> show ?thesis
        by auto
    qed
  qed
qed

lemma add_failure_unchanged:
  assumes "MRU_CACHE_add w e handle id_arg d x = Ok (w', h', Failure)"
  shows "h' = handle \<and>
         (w' = w \<or> (\<exists>wc c. SMART_PTR_copy w (copy_malloc e) (copy_lock e) d = Ok (wc, Some c)
                       \<and> SMART_PTR_delete wc (delete_lock e) (Some c) = Ok w'))"
proof (cases handle)
  case None
  with assms show ?thesis by (simp add: MRU_CACHE_add_def)
next
  case (Some inst)
  note h = this
  show ?thesis
  proof (cases id_arg)
    case None
    with assms h show ?thesis by (simp add: MRU_CACHE_add_def)
  next
    case (Some s)
    from add_cases [OF assms [unfolded h Some]] show ?thesis
    proof (elim disjE conjE exE)
      fix wc made
      assume an: "add_new w e s d x = Ok (wc, made)"
        and c: "case made of None \<Rightarrow> Failure = Failure \<and> h' = Some inst \<and> w' = wc
                | Some en \<Rightarrow> add_insert wc e inst en = Ok (w', h', Failure)"
      show ?thesis
      proof (cases made)
        case None
        with c an h add_new_cases [OF an] show ?thesis by auto
      next
        case (Some en)
        with c add_insert_cases [of wc e inst en w' h' Failure] show ?thesis by simp
      qed
    next
      fix i wc upd
      assume au: "add_update w e inst i d x = Ok (wc, upd)"
        and c: "case upd of None \<Rightarrow> Failure = Failure \<and> h' = Some inst \<and> w' = wc
                | Some (inst2, en) \<Rightarrow> add_insert wc e inst2 en = Ok (w', h', Failure)"
      show ?thesis
      proof (cases upd)
        case None
        with c au h add_update_cases [OF au] show ?thesis by auto
      next
        case (Some p)
        obtain inst2 en where "p = (inst2, en)" by (cases p)
        with Some c add_insert_cases [of wc e inst2 en w' h' Failure] show ?thesis by simp
      qed
    qed (use h in auto)
  qed
qed

subsection \<open>Handles backed by shared objects\<close>

lemma holders_remove:
  assumes "i < length l"
  shows "holders r (take i l @ drop (Suc i) l) = holders r l - (if refers r (l ! i) then 1 else 0)"
proof -
  from assms have "l = take i l @ l ! i # drop (Suc i) l" by (rule id_take_nth_drop)
  then have "holders r l = holders r (take i l @ l ! i # drop (Suc i) l)" by simp
  then show ?thesis by (simp add: holders_def)
qed

lemma holders_pos: "i < length l \<Longrightarrow> refers r (l ! i) \<Longrightarrow> 0 < holders r l"
  by (auto simp: holders_def filter_empty_conv)

lemma handles_ok_remove_other:
  assumes ok: "handles_ok w l" and i: "i < length l"
    and same: "\<And>r. r \<noteq> NULL \<Longrightarrow> \<not> refers r (l ! i) \<Longrightarrow> refs w' r = refs w r"
    and self: "\<And>r. r \<noteq> NULL \<Longrightarrow> refers r (l ! i) \<Longrightarrow> 1 < holders r l \<Longrightarrow>
                 \<exists>R. refs w' r = Some R \<and> int (holders r l) - 1 \<le> refCount R \<and> freeFunc R \<noteq> NULL"
  shows "handles_ok w' (take i l @ drop (Suc i) l)"
  unfolding handles_ok_def
proof (intro allI impI)
  fix r assume r: "r \<noteq> NULL" and p: "0 < holders r (take i l @ drop (Suc i) l)"
  show "\<exists>R. refs w' r = Some R \<and>
          int (holders r (take i l @ drop (Suc i) l)) \<le> refCount R \<and> freeFunc R \<noteq> NULL"
  proof (cases "refers r (l ! i)")
    case False
    with p have "0 < holders r l" by (simp add: holders_remove [OF i])
    with ok r obtain R where "refs w r = Some R" "int (holders r l) \<le> refCount R"
      "freeFunc R \<noteq> NULL" by (auto simp: handles_ok_def)
    with False same [OF r False] show ?thesis by (simp add: holders_remove [OF i])
  next
    case True
    with p have m: "1 < holders r l" by (simp add: holders_remove [OF i])
    from self [OF r True m] True m show ?thesis
      by (auto simp: holders_remove [OF i])
  qed
qed

lemma delete_keeps_handles:
  assumes ok: "handles_ok w l" and i: "i < length l"
  shows "\<exists>w'. SMART_PTR_delete w lk (dataHandle (l ! i)) = Ok w'
           \<and> handles_ok w' (take i l @ drop (Suc i) l)
           \<and> (\<forall>r. r \<noteq> NULL \<longrightarrow> \<not> refers r (l ! i) \<longrightarrow> refs w' r = refs w r)
           \<and> (\<forall>r R. r \<noteq> NULL \<longrightarrow> refers r (l ! i) \<longrightarrow> refs w r = Some R \<longrightarrow> 1 < refCount R \<longrightarrow>
                 refs w' r = Some (R\<lparr>refCount := refCount R - 1\<rparr>))"
proof (cases "\<exists>h. dataHandle (l ! i) = Some h \<and> ref h \<noteq> NULL")
  case False
  then have nr: "\<And>r. r \<noteq> NULL \<Longrightarrow> \<not> refers r (l ! i)"
    by (auto simp: refers_def split: option.splits)
  have "handles_ok w (take i l @ drop (Suc i) l)"
    by (rule handles_ok_remove_other [OF ok i]) (use nr in auto)
  moreover from False have "SMART_PTR_delete w lk (dataHandle (l ! i)) = Ok w"
    by (auto simp: SMART_PTR_delete_def split: option.splits)
  ultimately show ?thesis using nr by auto
next
  case True
  then obtain h where h: "dataHandle (l ! i) = Some h" and nn: "ref h \<noteq> NULL" by auto
  then have rf: "\<And>r. refers r (l ! i) \<longleftrightarrow> r = ref h" by (auto simp: refers_def)
  then have "0 < holders (ref h) l" using i by (simp add: holders_pos)
  with ok nn obtain R where R: "refs w (ref h) = Some R" and c: "int (holders (ref h) l) \<le> refCount R"
    and f: "freeFunc R \<noteq> NULL" by (auto simp: handles_ok_def)
  from c \<open>0 < holders (ref h) l\<close> have pos: "1 \<le> refCount R" by simp
  show ?thesis
  proof (cases "refCount R = 1")
    case True
    let ?w' = "w\<lparr>calls := calls w @ [(freeFunc R, data R)], refs := (refs w)(ref h := None)\<rparr>"
    from True R f nn h have d: "SMART_PTR_delete w lk (dataHandle (l ! i)) = Ok ?w'"
      by (simp add: SMART_PTR_delete_def free_ref_def Let_def)
    have "handles_ok ?w' (take i l @ drop (Suc i) l)"
      by (rule handles_ok_remove_other [OF ok i]) (use rf c True in auto)
    with d rf R True show ?thesis by auto
  next
    case False
    let ?w' = "w\<lparr>refs := (refs w)(ref h \<mapsto> R\<lparr>refCount := refCount R - 1\<rparr>)\<rparr>"
    from False pos R nn h have d: "SMART_PTR_delete w lk (dataHandle (l ! i)) = Ok ?w'"
      by (simp add: SMART_PTR_delete_def Let_def)
    have "handles_ok ?w' (take i l @ drop (Suc i) l)"
      by (rule handles_ok_remove_other [OF ok i]) (use rf c f in auto)
    with d rf R show ?thesis by auto
  qed
qed


subsection \<open>Reading and pruning\<close>

lemma get_found_expired:
  assumes "find_entry (Some s) (dlist inst) = Ok (Success, Some i)"
    and "length s \<le> MRU_CACHE_MAX_ID_LEN"
    and "is_expired (now e 0) (dlist inst ! i)"
  shows "MRU_CACHE_get w e (Some inst) (Some s) (Some old) = Ok (w, Some inst, Success, Some None)"
proof -
  from assms(1) have "i = 0" "dlist inst \<noteq> []" by (auto dest: find_entry_Some_head)
  with assms show ?thesis
    by (simp add: MRU_CACHE_get_def get_from_cache_def)
qed

lemma get_include_expired_found:
  assumes "find_entry (Some s) (dlist inst) = Ok (Success, Some i)"
    and "length s \<le> MRU_CACHE_MAX_ID_LEN"
    and "0 < numItems inst" and "numItems inst \<le> INT_MAX"
  shows "MRU_CACHE_get_include_expired w e (Some inst) (Some s) (Some old) =
           and_then (SMART_PTR_copy w (copy_malloc e) (copy_lock e) (dataHandle (dlist inst ! i)))
             (\<lambda>(w1, c). Ok (w1, Some (inst\<lparr>dlist := dlist inst ! i #
                                   (take i (dlist inst) @ drop (Suc i) (dlist inst))\<rparr>),
                            Success, Some c))"
proof -
  from assms(1) have "i = 0" "dlist inst \<noteq> []" by (auto dest: find_entry_Some_head)
  with assms show ?thesis
    by (simp add: MRU_CACHE_get_include_expired_def get_from_cache_def remove_entry_def
        insert_at_start_def Let_def)
qed

lemma prune_loop_Ok:
  assumes "prune_loop w e inst k i rest = Ok (w', inst')"
    and "drop i (dlist inst) = rest"
  shows "inst' = inst\<lparr>dlist := take i (dlist inst) @
                   map snd (filter (\<lambda>(j, en). \<not> is_expired (now e j) en) (enumerate k rest)),
                 numItems := numItems inst -
                   int (length (filter (\<lambda>(j, en). is_expired (now e j) en) (enumerate k rest)))\<rparr>"
  using assms
proof (induction rest arbitrary: w inst k i)
  case Nil
  then show ?case by simp
next
  case (Cons en rest)
  show ?case
  proof (cases "is_expired (now e k) en")
    case False
    from Cons.prems(2) have d: "drop (Suc i) (dlist inst) = rest"
      by (metis drop_Suc tl_drop list.sel(3))
    from Cons.prems(2) have t: "take (Suc i) (dlist inst) = take i (dlist inst) @ [en]"
      by (metis Cons_nth_drop_Suc drop_eq_Nil2 leI list.distinct(1) list.inject take_Suc_conv_app_nth)
    from False Cons.prems(1) have "prune_loop w e inst (Suc k) (Suc i) rest = Ok (w', inst')"
      by simp
    from Cons.IH [OF this d] False t show ?thesis by simp
  next
    case True
    from Cons.prems(2) have il: "i < length (dlist inst)"
      by (metis drop_eq_Nil2 leI list.distinct(1))
    from Cons.prems(2) have d: "drop (Suc i) (dlist inst) = rest"
      by (metis drop_Suc tl_drop list.sel(3))
    from True Cons.prems(1) obtain inst1 w1 where
      r: "remove_entry inst (Some i) = Ok inst1" and
      l: "prune_loop w1 e inst1 (Suc k) i rest = Ok (w', inst')"
      by (auto split: outcome.splits)
    from r have i1: "inst1 = inst\<lparr>dlist := take i (dlist inst) @ drop (Suc i) (dlist inst),
                  numItems := numItems inst - 1\<rparr>"
      by (simp add: remove_entry_Ok)
    with il d have d1: "drop i (dlist inst1) = rest" by simp
    from i1 il have t1: "take i (dlist inst1) = take i (dlist inst)" by simp
    from Cons.IH [OF l d1] True i1 t1 show ?thesis by simp
  qed
qed

subsection \<open>Steps and runs keep the counters right\<close>

lemma add_step:
  assumes run: "MRU_CACHE_add w e (Some inst) id_arg d x = Ok (w', h', st)" and ok: "cache_ok inst"
  shows "\<exists>inst'. h' = Some inst' \<and> cache_ok inst' \<and> maxItems inst' = maxItems inst \<and>
     (inst' = inst
      \<or> (numItems inst < maxItems inst \<and>
          inst' = inst\<lparr>dlist := \<lparr>entry_id = id_arg, dataHandle = d, created = now e 0,
                                   expiryInSec = x\<rparr> # dlist inst,
                        numItems := numItems inst + 1\<rparr>)
      \<or> (numItems inst = maxItems inst \<and>
          inst' = inst\<lparr>dlist := butlast (\<lparr>entry_id = id_arg, dataHandle = d, created = now e 0,
                                            expiryInSec = x\<rparr> # dlist inst)\<rparr>)
      \<or> (\<exists>old rest. dlist inst = old # rest \<and>
            inst' = inst\<lparr>dlist := old\<lparr>created := now e 0, expiryInSec := x,
                                        dataHandle := d\<rparr> # rest\<rparr>))"
proof (cases id_arg)
  case None
  with run ok show ?thesis by (auto simp: MRU_CACHE_add_def)
next
  case (Some s)
  from add_cases [OF run [unfolded Some]] show ?thesis
  proof (elim disjE conjE exE)
    fix wc made
    assume an: "add_new w e s d x = Ok (wc, made)"
      and c: "case made of None \<Rightarrow> st = Failure \<and> h' = Some inst \<and> w' = wc
              | Some en \<Rightarrow> add_insert wc e inst en = Ok (w', h', st)"
    show ?thesis
    proof (cases made)
      case None
      with c ok show ?thesis by simp
    next
      case (Some en)
      with c have ai: "add_insert wc e inst en = Ok (w', h', st)" by simp
      from add_new_cases [OF an] Some obtain c0 wc0 where
        cp: "SMART_PTR_copy w (copy_malloc e) (copy_lock e) d = Ok (wc0, Some c0)"
        and en: "en = \<lparr>entry_id = Some s, dataHandle = Some c0, created = now e 0,
                       expiryInSec = x\<rparr>"
        by auto
      from copy_cases [OF cp] have "d = Some c0" by auto
      with en \<open>id_arg = Some s\<close>
      have en': "en = \<lparr>entry_id = id_arg, dataHandle = d, created = now e 0, expiryInSec = x\<rparr>"
        by simp
      show ?thesis
      proof (cases "maxItems inst < numItems inst + 1")
        case True
        with add_insert_cases [OF ai] have
          "h' = Some (inst\<lparr>dlist := butlast (en # dlist inst), numItems := numItems inst\<rparr>)"
          by simp
        with True ok en' show ?thesis by (auto simp: cache_ok_def)
      next
        case False
        with add_insert_cases [OF ai] have
          "h' = Some (inst\<lparr>dlist := en # dlist inst, numItems := numItems inst + 1\<rparr>)"
          by simp
        with False ok en' show ?thesis by (auto simp: cache_ok_def)
      qed
    qed
  next
    fix i wc upd
    assume f: "find_entry (Some s) (dlist inst) = Ok (Success, Some i)"
      and au: "add_update w e inst i d x = Ok (wc, upd)"
      and c: "case upd of None \<Rightarrow> st = Failure \<and> h' = Some inst \<and> w' = wc
              | Some (inst2, en) \<Rightarrow> add_insert wc e inst2 en = Ok (w', h', st)"
    show ?thesis
    proof (cases upd)
      case None
      with c ok show ?thesis by simp
    next
      case (Some p)
      obtain inst2 en where p: "p = (inst2, en)" by (cases p)
      with Some c have ai: "add_insert wc e inst2 en = Ok (w', h', st)" by simp
      from find_entry_Some_head [OF f] obtain old rest where i0: "i = 0"
        and l: "dlist inst = old # rest" by (cases "dlist inst") auto
      from add_update_cases [OF au] Some p obtain c0 wc0 where
        cp: "SMART_PTR_copy w (copy_malloc e) (copy_lock e) d = Ok (wc0, Some c0)"
        and i2: "inst2 = inst\<lparr>dlist := take i (dlist inst) @ drop (Suc i) (dlist inst),
                            numItems := numItems inst - 1\<rparr>"
        and en: "en = (dlist inst ! i)\<lparr>created := now e 0, expiryInSec := x,
                                         dataHandle := Some c0\<rparr>"
        by auto
      from copy_cases [OF cp] have "d = Some c0" by auto
      with en i0 l have en': "en = old\<lparr>created := now e 0, expiryInSec := x, dataHandle := d\<rparr>"
        by simp
      from i2 i0 l have i2': "inst2 = inst\<lparr>dlist := rest, numItems := numItems inst - 1\<rparr>"
        by simp
      from ok l i2' have "\<not> maxItems inst2 < numItems inst2 + 1" by (auto simp: cache_ok_def)
      with add_insert_cases [OF ai] have
        "h' = Some (inst2\<lparr>dlist := en # dlist inst2, numItems := numItems inst2 + 1\<rparr>)"
        by simp
      with i2' have "h' = Some (inst\<lparr>dlist := en # rest\<rparr>)" by simp
      with ok l en' show ?thesis by (auto simp: cache_ok_def)
    qed
  qed (use ok in auto)
qed

lemma get_step:
  assumes run: "get_from_cache w e (Some inst) inc id_arg d = Ok (w', h', st, out)"
    and ok: "cache_ok inst"
  shows "\<exists>inst'. h' = Some inst' \<and> cache_ok inst' \<and> maxItems inst' = maxItems inst"
proof -
  have "cache_ok (inst\<lparr>dlist := dlist inst ! i # (take i (dlist inst) @ drop (Suc i) (dlist inst)),
                       numItems := numItems inst - 1 + 1\<rparr>)"
    if "i < length (dlist inst)" for i
    using that ok by (auto simp: cache_ok_def)
  with run ok show ?thesis
    by (auto simp: get_from_cache_def and_then_Ok_iff remove_entry_Ok insert_at_start_Ok Let_def
        split: option.splits if_splits)
qed

lemma length_unexpired:
  "int (length (filter (\<lambda>(j, en). is_expired (clock j) en) (enumerate k l))) =
   int (length l) - int (length (filter (\<lambda>(j, en). \<not> is_expired (clock j) en) (enumerate k l)))"
proof -
  have "length (filter (\<lambda>(j, en). is_expired (clock j) en) (enumerate k l)) +
        length (filter (\<lambda>x. \<not> (\<lambda>(j, en). is_expired (clock j) en) x) (enumerate k l)) =
        length (enumerate k l)"
    by (rule sum_length_filter_compl)
  moreover have "(\<lambda>x. \<not> (\<lambda>(j, en). is_expired (clock j) en) x) =
                 (\<lambda>(j, en). \<not> is_expired (clock j) en)" by auto
  ultimately show ?thesis by simp
qed

lemma prune_Ok:
  assumes "MRU_CACHE_prune w e (Some inst) = Ok (w', h', st)"
  shows "st = Success \<and>
         h' = Some (inst\<lparr>dlist := unexpired (now e) (dlist inst),
                        numItems := numItems inst -
                          (int (length (dlist inst)) - int (length (unexpired (now e) (dlist inst))))\<rparr>)"
proof -
  from assms obtain inst' where l: "prune_loop w e inst 0 0 (dlist inst) = Ok (w', inst')"
    and r: "st = Success" "h' = Some inst'"
    by (auto simp: MRU_CACHE_prune_def and_then_Ok_iff)
  from prune_loop_Ok [OF l] r show ?thesis
    by (simp add: unexpired_def length_unexpired)
qed

lemma prune_step:
  assumes run: "MRU_CACHE_prune w e (Some inst) = Ok (w', h', st)" and ok: "cache_ok inst"
  shows "\<exists>inst'. h' = Some inst' \<and> cache_ok inst' \<and> maxItems inst' = maxItems inst"
proof -
  have "length (unexpired (now e) (dlist inst)) \<le> length (dlist inst)"
    unfolding unexpired_def
    by (metis length_enumerate length_filter_le length_map)
  with prune_Ok [OF run] ok show ?thesis by (auto simp: cache_ok_def)
qed

lemma run_calls_ok:
  assumes "run_calls w (Some inst) cs = Ok (w', h')" and "cache_ok inst"
  shows "\<exists>inst'. h' = Some inst' \<and> cache_ok inst' \<and> maxItems inst' = maxItems inst"
  using assms
proof (induction cs arbitrary: w inst)
  case Nil
  then show ?case by auto
next
  case (Cons c cs)
  show ?case
  proof (cases c)
    case (Add e i d x)
    with Cons.prems obtain w1 h1 st where
      s: "MRU_CACHE_add w e (Some inst) i d x = Ok (w1, h1, st)"
      and r: "run_calls w1 h1 cs = Ok (w', h')"
      by (auto split: outcome.splits)
    from add_step [OF s Cons.prems(2)] obtain inst1 where
      "h1 = Some inst1" "cache_ok inst1" "maxItems inst1 = maxItems inst" by blast
    with Cons.IH [of w1 inst1] r show ?thesis by auto
  next
    case (Get e inc i d)
    with Cons.prems obtain w1 h1 st out where
      s: "get_from_cache w e (Some inst) inc i d = Ok (w1, h1, st, out)"
      and r: "run_calls w1 h1 cs = Ok (w', h')"
      by (auto split: outcome.splits)
    from get_step [OF s Cons.prems(2)] obtain inst1 where
      "h1 = Some inst1" "cache_ok inst1" "maxItems inst1 = maxItems inst" by blast
    with Cons.IH [of w1 inst1] r show ?thesis by auto
  next
    case (Prune e)
    with Cons.prems obtain w1 h1 st where
      s: "MRU_CACHE_prune w e (Some inst) = Ok (w1, h1, st)"
      and r: "run_calls w1 h1 cs = Ok (w', h')"
      by (auto split: outcome.splits)
    from prune_step [OF s Cons.prems(2)] obtain inst1 where
      "h1 = Some inst1" "cache_ok inst1" "maxItems inst1 = maxItems inst" by blast
    with Cons.IH [of w1 inst1] r show ?thesis by auto
  qed
qed

subsection \<open>Pruning returns\<close>

lemma prune_loop_total:
  assumes "drop i (dlist inst) = rest" and "handles_ok w (dlist inst)"
    and "numItems inst = int (length (dlist inst))"
  shows "\<exists>w' inst'. prune_loop w e inst k i rest = Ok (w', inst') \<and> handles_ok w' (dlist inst')"
  using assms
proof (induction rest arbitrary: w inst k i)
  case Nil
  then show ?case by simp
next
  case (Cons en rest)
  from Cons.prems(1) have il: "i < length (dlist inst)"
    by (metis drop_eq_Nil2 leI list.distinct(1))
  from Cons.prems(1) have d: "drop (Suc i) (dlist inst) = rest"
    by (metis drop_Suc tl_drop list.sel(3))
  from Cons.prems(1) il have en: "dlist inst ! i = en"
    by (metis Cons_nth_drop_Suc list.inject)
  show ?case
  proof (cases "is_expired (now e k) en")
    case False
    with Cons.IH [OF d Cons.prems(2,3)] show ?thesis by simp
  next
    case True
    let ?inst1 = "inst\<lparr>dlist := take i (dlist inst) @ drop (Suc i) (dlist inst),
                       numItems := numItems inst - 1\<rparr>"
    from il Cons.prems(3) have r: "remove_entry inst (Some i) = Ok ?inst1"
      by (auto simp: remove_entry_Ok)
    from delete_keeps_handles [OF Cons.prems(2) il, of "delete_lock e"] en
    obtain w1 where f: "free_entry w (delete_lock e) (Some en) = Ok w1"
      and h1: "handles_ok w1 (dlist ?inst1)"
      by (auto simp: free_entry_def)
    from il d have d1: "drop i (dlist ?inst1) = rest" by simp
    from il Cons.prems(3) have n1: "numItems ?inst1 = int (length (dlist ?inst1))" by auto
    from Cons.IH [OF d1 h1 n1, of "Suc k"] True r f show ?thesis by simp
  qed
qed

lemma subseq_unexpired: "subseq (map snd (filter P (enumerate k l))) l"
proof -
  have "subseq (map snd (filter P (enumerate k l))) (map snd (enumerate k l))"
    by (intro subseq_map subseq_filter_left)
  then show ?thesis by simp
qed

lemma unexpired_constant_clock:
  "map snd (filter (\<lambda>(j, en). \<not> is_expired t en) (enumerate k l)) =
   filter (\<lambda>en. \<not> is_expired t en) l"
  by (induction l arbitrary: k) auto

subsection \<open>Adding, then reading\<close>

lemma copy_Some:
  assumes "SMART_PTR_copy w m l (Some h) = Ok (w1, Some c)" and "deref w (ref h) = Some R"
  shows "c = h \<and> lock h \<noteq> NULL \<and> refCount R \<noteq> INT_MAX
       \<and> w1 = w\<lparr>refs := (refs w)(ref h \<mapsto> R\<lparr>refCount := refCount R + 1\<rparr>)\<rparr>"
  using assms by (auto simp: SMART_PTR_copy_def split: if_splits)

lemma delete_keeps_live:
  assumes "SMART_PTR_delete w lk g = Ok w'" and "refs w r = Some R" and "2 \<le> refCount R"
  shows "\<exists>R'. refs w' r = Some R' \<and> data R' = data R \<and> refCount R - 1 \<le> refCount R'
              \<and> refCount R' \<le> refCount R"
  using assms
  by (auto simp: SMART_PTR_delete_def free_ref_def Let_def split: option.splits if_splits)

lemma find_spec_None_find_entry:
  "find_spec s l 0 = None \<Longrightarrow> find_entry (Some s) l \<noteq> Ok (Success, Some i)"
  by (cases l) (auto simp: find_entry_def split: option.splits if_splits)

lemma find_entry_Some_id:
  assumes "find_entry (Some s) l = Ok (Success, Some i)"
  shows "\<exists>en rest cid. l = en # rest \<and> i = 0 \<and> entry_id en = Some cid
           \<and> take MRU_CACHE_MAX_ID_LEN s = take MRU_CACHE_MAX_ID_LEN cid"
  using assms
  by (cases l) (auto simp: find_entry_def strncmp_eq_0_iff split: option.splits if_splits)

lemma add_success_shape:
  assumes ok: "cache_ok inst" and cap: "1 \<le> maxItems inst"
    and R: "deref w (ref h) = Some R" and pay: "data R \<noteq> NULL"
    and cnt: "1 \<le> refCount R"
    and locks: "hv_lock e = LOCK_OK" "hv_unlock e = LOCK_OK"
    and add: "MRU_CACHE_add w e (Some inst) (Some s) (Some h) x = Ok (w1, h1, Success)"
  shows "\<exists>inst1 en rest cid R'. h1 = Some inst1 \<and> cache_ok inst1 \<and> maxItems inst1 = maxItems inst
     \<and> dlist inst1 = en # rest \<and> dataHandle en = Some h \<and> expiryInSec en = x
     \<and> entry_id en = Some cid \<and> take MRU_CACHE_MAX_ID_LEN s = take MRU_CACHE_MAX_ID_LEN cid
     \<and> length s \<le> MRU_CACHE_MAX_ID_LEN
     \<and> lock h \<noteq> NULL \<and> refs w1 (ref h) = Some R' \<and> data R' = data R
     \<and> 1 \<le> refCount R' \<and> refCount R' \<le> refCount R + 1
     \<and> (find_entry (Some s) (dlist inst) = Ok (Success, None)
          \<or> (\<exists>i. find_entry (Some s) (dlist inst) = Ok (Success, Some i)))
     \<and> (find_entry (Some s) (dlist inst) = Ok (Success, None) \<longrightarrow>
           numItems inst1 = (if numItems inst < maxItems inst then numItems inst + 1
                             else numItems inst))
     \<and> ((\<exists>i. find_entry (Some s) (dlist inst) = Ok (Success, Some i)) \<longrightarrow>
           numItems inst1 = numItems inst)"
proof -
  from R have rr: "refs w (ref h) = Some R" and nn: "ref h \<noteq> NULL"
    by (auto simp: deref_def split: if_splits)
  from R pay locks have hv: "SMART_PTR_has_value w (hv_lock e) (hv_unlock e) (Some h) = Ok True"
    by (simp add: SMART_PTR_has_value_def SMART_PTR_get_def)
  let ?wc = "w\<lparr>refs := (refs w)(ref h \<mapsto> R\<lparr>refCount := refCount R + 1\<rparr>)\<rparr>"
  have wc: "refs ?wc (ref h) = Some (R\<lparr>refCount := refCount R + 1\<rparr>)" by simp
  from add_cases [OF add] hv show ?thesis
  proof (elim disjE conjE exE)
    fix wc made
    assume len: "length s \<le> MRU_CACHE_MAX_ID_LEN"
      and f: "find_entry (Some s) (dlist inst) = Ok (Success, None)"
      and an: "add_new w e s (Some h) x = Ok (wc, made)"
      and c: "case made of None \<Rightarrow> Success = Failure \<and> h1 = Some inst \<and> w1 = wc
              | Some en \<Rightarrow> add_insert wc e inst en = Ok (w1, h1, Success)"
    from c obtain en where made: "made = Some en"
      and ai: "add_insert wc e inst en = Ok (w1, h1, Success)"
      by (cases made) auto
    from add_new_cases [OF an] made obtain c0 where
      cp: "SMART_PTR_copy w (copy_malloc e) (copy_lock e) (Some h) = Ok (wc, Some c0)"
      and en: "en = \<lparr>entry_id = Some s, dataHandle = Some c0, created = now e 0, expiryInSec = x\<rparr>"
      by auto
    from copy_Some [OF cp R] have c0: "c0 = h" and lk: "lock h \<noteq> NULL" and wceq: "wc = ?wc"
      by auto
    show ?thesis
    proof (cases "maxItems inst < numItems inst + 1")
      case False
      with add_insert_cases [OF ai] have h1: "h1 = Some (inst\<lparr>dlist := en # dlist inst,
          numItems := numItems inst + 1\<rparr>)" and w1: "w1 = wc" by auto
      from False ok have "cache_ok (inst\<lparr>dlist := en # dlist inst, numItems := numItems inst + 1\<rparr>)"
        by (auto simp: cache_ok_def)
      with h1 w1 wceq en c0 lk len cnt f False show ?thesis
        by (auto dest: find_spec_None_find_entry)
    next
      case True
      with add_insert_cases [OF ai] have
        h1: "h1 = Some (inst\<lparr>dlist := butlast (en # dlist inst), numItems := numItems inst\<rparr>)"
        and fe: "free_entry wc (delete_lock e) (Some (last (en # dlist inst))) = Ok w1" by auto
      from True ok cap have ne: "dlist inst \<noteq> []" by (auto simp: cache_ok_def)
      from fe have "SMART_PTR_delete ?wc (delete_lock e) (dataHandle (last (en # dlist inst))) = Ok w1"
        by (simp add: free_entry_def wceq)
      from delete_keeps_live [OF this wc] cnt obtain R' where
        R': "refs w1 (ref h) = Some R'" "data R' = data R" "refCount R \<le> refCount R'"
            "refCount R' \<le> refCount R + 1"
        by auto
      from ok have "cache_ok (inst\<lparr>dlist := butlast (en # dlist inst), numItems := numItems inst\<rparr>)"
        using ne by (auto simp: cache_ok_def)
      with h1 R' en c0 lk len cnt f True ne ok show ?thesis
        by (auto simp: cache_ok_def)
    qed
  next
    fix i wc upd
    assume len: "length s \<le> MRU_CACHE_MAX_ID_LEN"
      and f: "find_entry (Some s) (dlist inst) = Ok (Success, Some i)"
      and au: "add_update w e inst i (Some h) x = Ok (wc, upd)"
      and c: "case upd of None \<Rightarrow> Success = Failure \<and> h1 = Some inst \<and> w1 = wc
              | Some (inst2, en) \<Rightarrow> add_insert wc e inst2 en = Ok (w1, h1, Success)"
    from c obtain inst2 en where upd: "upd = Some (inst2, en)"
      and ai: "add_insert wc e inst2 en = Ok (w1, h1, Success)"
      by (cases upd) auto
    from find_entry_Some_id [OF f] obtain old rest cid where
      l: "dlist inst = old # rest" and i0: "i = 0" and cid: "entry_id old = Some cid"
      "take MRU_CACHE_MAX_ID_LEN s = take MRU_CACHE_MAX_ID_LEN cid" by blast
    from add_update_cases [OF au] upd obtain c0 wc0 where
      cp: "SMART_PTR_copy w (copy_malloc e) (copy_lock e) (Some h) = Ok (wc0, Some c0)"
      and dl: "if dataHandle (dlist inst ! i) \<noteq> None
               then SMART_PTR_delete wc0 (delete_lock e) (dataHandle (dlist inst ! i)) = Ok wc
               else wc = wc0"
      and i2: "inst2 = inst\<lparr>dlist := take i (dlist inst) @ drop (Suc i) (dlist inst),
                            numItems := numItems inst - 1\<rparr>"
      and en: "en = (dlist inst ! i)\<lparr>created := now e 0, expiryInSec := x, dataHandle := Some c0\<rparr>"
      by auto
    from copy_Some [OF cp R] have c0: "c0 = h" and lk: "lock h \<noteq> NULL" and wceq: "wc0 = ?wc"
      by auto
    have "\<exists>R'. refs wc (ref h) = Some R' \<and> data R' = data R \<and> refCount R \<le> refCount R'
              \<and> refCount R' \<le> refCount R + 1"
    proof (cases "dataHandle (dlist inst ! i) \<noteq> None")
      case True
      with dl wceq have "SMART_PTR_delete ?wc (delete_lock e) (dataHandle (dlist inst ! i)) = Ok wc"
        by simp
      from delete_keeps_live [OF this wc] cnt show ?thesis by auto
    next
      case False
      with dl wceq show ?thesis by simp
    qed
    then obtain R' where R': "refs wc (ref h) = Some R'" "data R' = data R"
      "refCount R \<le> refCount R'" "refCount R' \<le> refCount R + 1" by blast
    from ok l i2 i0 have n2: "\<not> maxItems inst2 < numItems inst2 + 1"
      by (auto simp: cache_ok_def)
    with add_insert_cases [OF ai] have h1: "h1 = Some (inst2\<lparr>dlist := en # dlist inst2,
          numItems := numItems inst2 + 1\<rparr>)" and w1: "w1 = wc" by auto
    from ok l i2 i0 have "cache_ok (inst2\<lparr>dlist := en # dlist inst2, numItems := numItems inst2 + 1\<rparr>)"
      by (auto simp: cache_ok_def)
    with h1 w1 R' en c0 lk len cnt f l i0 cid i2 show ?thesis
      by auto
  qed auto
qed


lemma get_after_add:
  assumes ok: "cache_ok inst1" and mx: "maxItems inst1 \<le> INT_MAX"
    and l: "dlist inst1 = en # rest" and dh: "dataHandle en = Some h"
    and ex: "expiryInSec en < 0" and cid: "entry_id en = Some cid"
      "take MRU_CACHE_MAX_ID_LEN s = take MRU_CACHE_MAX_ID_LEN cid"
    and len: "length s \<le> MRU_CACHE_MAX_ID_LEN"
    and lk: "lock h \<noteq> NULL" and nn: "ref h \<noteq> NULL"
    and R': "refs w1 (ref h) = Some R'" and cnt: "refCount R' \<noteq> INT_MAX"
    and env: "copy_malloc e2" "copy_lock e2 = LOCK_OK"
  shows "MRU_CACHE_get w1 e2 (Some inst1) (Some s) (Some old) =
           Ok (w1\<lparr>refs := (refs w1)(ref h \<mapsto> R'\<lparr>refCount := refCount R' + 1\<rparr>)\<rparr>,
               Some inst1, Success, Some (Some h))"
proof -
  from ok l have n: "0 < numItems inst1" "numItems inst1 \<le> maxItems inst1"
    by (auto simp: cache_ok_def)
  with mx have n2: "numItems inst1 - 1 \<noteq> INT_MAX" by simp
  have f: "find_entry (Some s) (dlist inst1) = Ok (Success, Some 0)"
    using l cid by (simp add: find_entry_Cons)
  have x: "\<not> is_expired (now e2 0) en" using ex by (simp add: is_expired_def)
  have c: "SMART_PTR_copy w1 (copy_malloc e2) (copy_lock e2) (Some h) =
      Ok (w1\<lparr>refs := (refs w1)(ref h \<mapsto> R'\<lparr>refCount := refCount R' + 1\<rparr>)\<rparr>, Some h)"
    using lk nn R' cnt env by (simp add: SMART_PTR_copy_def deref_def)
  have i: "inst1\<lparr>dlist := en # rest, numItems := numItems inst1 - 1 + 1\<rparr> = inst1"
    using l by simp
  show ?thesis
    using len f x c n n2 l dh i
    by (simp add: MRU_CACHE_get_def get_from_cache_def remove_entry_def insert_at_start_def Let_def)
qed

lemma holders_Cons: "holders r (en # l) = holders r l + (if refers r en then 1 else 0)"
  by (simp add: holders_def)

lemma handles_ok_insert:
  assumes hk: "handles_ok w l" and rr: "refs w (ref h) = Some R" and cnt: "0 \<le> refCount R"
    and ff: "freeFunc R \<noteq> NULL" and dh: "dataHandle en = Some h"
  shows "handles_ok (w\<lparr>refs := (refs w)(ref h \<mapsto> R\<lparr>refCount := refCount R + 1\<rparr>)\<rparr>) (en # l)"
  unfolding handles_ok_def
proof (intro allI impI)
  fix r assume r: "r \<noteq> NULL"
    and p: "0 < holders r (en # l)"
  let ?w = "w\<lparr>refs := (refs w)(ref h \<mapsto> R\<lparr>refCount := refCount R + 1\<rparr>)\<rparr>"
  show "\<exists>R2. refs ?w r = Some R2 \<and> int (holders r (en # l)) \<le> refCount R2 \<and> freeFunc R2 \<noteq> NULL"
  proof (cases "r = ref h")
    case True
    have "int (holders r l) \<le> refCount R"
    proof (cases "0 < holders r l")
      case True
      with hk r obtain R2 where "refs w r = Some R2" "int (holders r l) \<le> refCount R2"
        unfolding handles_ok_def by blast
      with \<open>r = ref h\<close> rr show ?thesis by simp
    next
      case False
      with cnt show ?thesis by simp
    qed
    with True ff show ?thesis by (simp add: holders_Cons)
  next
    case False
    with dh have "\<not> refers r en" by (simp add: refers_def)
    with p have "0 < holders r l" by (simp add: holders_Cons)
    with hk r obtain R2 where "refs w r = Some R2" "int (holders r l) \<le> refCount R2"
      "freeFunc R2 \<noteq> NULL" by (auto simp: handles_ok_def)
    with False \<open>\<not> refers r en\<close> show ?thesis by (simp add: holders_Cons)
  qed
qed

lemma handles_ok_copy:
  assumes hk: "handles_ok w l" and rr: "refs w (ref h) = Some R"
  shows "handles_ok (w\<lparr>refs := (refs w)(ref h \<mapsto> R\<lparr>refCount := refCount R + 1\<rparr>)\<rparr>) l"
  unfolding handles_ok_def
proof (intro allI impI)
  fix r assume r: "r \<noteq> NULL" and p: "0 < holders r l"
  with hk obtain R2 where "refs w r = Some R2" "int (holders r l) \<le> refCount R2"
      "freeFunc R2 \<noteq> NULL" by (auto simp: handles_ok_def)
  with rr show "\<exists>R2. refs (w\<lparr>refs := (refs w)(ref h \<mapsto> R\<lparr>refCount := refCount R + 1\<rparr>)\<rparr>) r = Some R2
      \<and> int (holders r l) \<le> refCount R2 \<and> freeFunc R2 \<noteq> NULL"
    by (cases "r = ref h") auto
qed

lemma add_returns:
  assumes ok: "cache_ok inst" and mx: "maxItems inst < INT_MAX"
    and len: "length s \<le> MRU_CACHE_MAX_ID_LEN"
    and R: "deref w (ref h) = Some R" and pay: "data R \<noteq> NULL"
    and cnt: "0 \<le> refCount R" "refCount R \<noteq> INT_MAX" and ff: "freeFunc R \<noteq> NULL"
    and lk: "lock h \<noteq> NULL"
    and env: "hv_lock e = LOCK_OK" "hv_unlock e = LOCK_OK" "calloc_entry e" "copy_malloc e"
      "copy_lock e = LOCK_OK" "strcpy_ok e"
    and hk: "handles_ok w (dlist inst)"
    and ids: "\<forall>en \<in> set (dlist inst). entry_id en \<noteq> None"
  shows "\<exists>w1 h1. MRU_CACHE_add w e (Some inst) (Some s) (Some h) x = Ok (w1, h1, Success)"
proof -
  from R have rr: "refs w (ref h) = Some R" and nn: "ref h \<noteq> NULL"
    by (auto simp: deref_def split: if_splits)
  from R pay env have hv: "SMART_PTR_has_value w (hv_lock e) (hv_unlock e) (Some h) = Ok True"
    by (simp add: SMART_PTR_has_value_def SMART_PTR_get_def)
  let ?wc = "w\<lparr>refs := (refs w)(ref h \<mapsto> R\<lparr>refCount := refCount R + 1\<rparr>)\<rparr>"
  have cp: "SMART_PTR_copy w (copy_malloc e) (copy_lock e) (Some h) = Ok (?wc, Some h)"
    using lk R cnt env by (simp add: SMART_PTR_copy_def)
  from ok mx have n: "numItems inst = int (length (dlist inst))" "numItems inst \<le> maxItems inst"
    "numItems inst \<noteq> INT_MAX" "0 \<le> numItems inst" "numItems inst - 1 \<noteq> INT_MAX"
    by (auto simp: cache_ok_def)
  have "\<exists>p. find_entry (Some s) (dlist inst) = Ok (Success, p) \<and> (\<forall>i. p = Some i \<longrightarrow> i = 0 \<and> dlist inst \<noteq> [])"
    using ids by (cases "dlist inst") (auto simp: find_entry_def split: option.splits)
  then obtain p where f: "find_entry (Some s) (dlist inst) = Ok (Success, p)"
    and p0: "\<And>i. p = Some i \<Longrightarrow> i = 0 \<and> dlist inst \<noteq> []" by blast
  show ?thesis
  proof (cases p)
    case None
    let ?en = "\<lparr>entry_id = Some s, dataHandle = Some h, created = now e 0, expiryInSec = x\<rparr>"
    have an: "add_new w e s (Some h) x = Ok (?wc, Some ?en)"
      using cp env by (simp add: add_new_def)
    have "\<exists>w1 h1. add_insert ?wc e inst ?en = Ok (w1, h1, Success)"
    proof (cases "maxItems inst < numItems inst + 1")
      case False
      with n show ?thesis by (simp add: add_insert_def insert_at_start_def Let_def)
    next
      case True
      have "handles_ok ?wc (?en # dlist inst)"
        by (rule handles_ok_insert [OF hk rr cnt(1) ff]) simp
      from delete_keeps_handles [OF this, of "length (dlist inst)" "delete_lock e"]
      obtain w1 where "SMART_PTR_delete ?wc (delete_lock e)
          (dataHandle ((?en # dlist inst) ! length (dlist inst))) = Ok w1" by auto
      with True n show ?thesis
        by (simp add: add_insert_def insert_at_start_def remove_entry_def free_entry_def Let_def)
    qed
    with hv f None an len show ?thesis by (simp add: MRU_CACHE_add_def)
  next
    case (Some i)
    with p0 have i0: "i = 0" and ne: "dlist inst \<noteq> []" by auto
    let ?old = "dlist inst ! 0"
    let ?en = "?old\<lparr>created := now e 0, expiryInSec := x, dataHandle := Some h\<rparr>"
    let ?inst2 = "inst\<lparr>dlist := take 0 (dlist inst) @ drop (Suc 0) (dlist inst),
                       numItems := numItems inst - 1\<rparr>"
    have hk2: "handles_ok ?wc (dlist inst)" by (rule handles_ok_copy [OF hk rr])
    from ne have l0: "0 < length (dlist inst)" by simp
    from delete_keeps_handles [OF hk2 l0, of "delete_lock e"]
    obtain w2 where d: "SMART_PTR_delete ?wc (delete_lock e) (dataHandle ?old) = Ok w2" by auto
    have "\<exists>w2. add_update w e inst 0 (Some h) x = Ok (w2, Some (?inst2, ?en))"
    proof (cases "dataHandle ?old \<noteq> None")
      case True
      with cp d l0 n show ?thesis
        by (simp add: add_update_def remove_entry_def Let_def)
    next
      case False
      with cp l0 n show ?thesis
        by (simp add: add_update_def remove_entry_def Let_def)
    qed
    then obtain w3 where au: "add_update w e inst 0 (Some h) x = Ok (w3, Some (?inst2, ?en))"
      by blast
    from n l0 have "\<exists>h1. add_insert w3 e ?inst2 ?en = Ok (w3, h1, Success)"
      by (simp add: add_insert_def insert_at_start_def Let_def)
    with hv f Some i0 au len show ?thesis by (auto simp: MRU_CACHE_add_def)
  qed
qed

subsection \<open>Unfolding on concrete inputs\<close>

lemmas eval_defs = MRU_CACHE_add_def MRU_CACHE_new_def MRU_CACHE_MAX_ID_LEN_def
  SMART_PTR_has_value_def SMART_PTR_get_def deref_def find_entry_Nil find_entry_Cons add_new_def
  add_update_def remove_entry_def free_entry_def SMART_PTR_delete_def free_ref_def
  SMART_PTR_copy_def INT_MAX_def add_insert_def insert_at_start_def all_ok_def Let_def
  get_from_cache_def MRU_CACHE_get_def MRU_CACHE_get_include_expired_def is_expired_def
  get_difftime_def MRU_CACHE_size_def

section \<open>The reference counted handle\<close>

text \<open>
  C8. After \<^verbatim>\<open>SMART_PTR_create(p, d)\<close> with a destructor \<open>d\<close> that is not null, one
  \<^verbatim>\<open>SMART_PTR_copy\<close> and two \<^verbatim>\<open>SMART_PTR_delete\<close>, the destructor has been called exactly once,
  with \<open>p\<close>, and not before the second delete. The count starts at 1, is 2 after the copy and 1
  after the first delete, which adds no call; the second delete appends the call \<open>(d, p)\<close> and
  frees the shared object. The copy holds the same two pointers as the original, so it does
  not matter which of the two is deleted first. Without a destructor no handle is created.
  Any delete that returns and adds a call found the count at 1 and so brought it to 0.
\<close>

theorem create_copy_delete_delete:
  assumes "d \<noteq> NULL" and "lk \<noteq> NULL" and "a \<noteq> NULL"
  shows "SMART_PTR_create w True lk a l0 p d =
           Ok (w\<lparr>refs := (refs w)(a \<mapsto> \<lparr>refCount = 1, data = p, freeFunc = d\<rparr>)\<rparr>,
               Some \<lparr>lock = lk, ref = a\<rparr>)
       \<and> SMART_PTR_copy (w\<lparr>refs := (refs w)(a \<mapsto> \<lparr>refCount = 1, data = p, freeFunc = d\<rparr>)\<rparr>)
           True LOCK_OK (Some \<lparr>lock = lk, ref = a\<rparr>) =
           Ok (w\<lparr>refs := (refs w)(a \<mapsto> \<lparr>refCount = 2, data = p, freeFunc = d\<rparr>)\<rparr>,
               Some \<lparr>lock = lk, ref = a\<rparr>)
       \<and> SMART_PTR_delete (w\<lparr>refs := (refs w)(a \<mapsto> \<lparr>refCount = 2, data = p, freeFunc = d\<rparr>)\<rparr>)
           l1 (Some \<lparr>lock = lk, ref = a\<rparr>) =
           Ok (w\<lparr>refs := (refs w)(a \<mapsto> \<lparr>refCount = 1, data = p, freeFunc = d\<rparr>)\<rparr>)
       \<and> SMART_PTR_delete (w\<lparr>refs := (refs w)(a \<mapsto> \<lparr>refCount = 1, data = p, freeFunc = d\<rparr>)\<rparr>)
           l2 (Some \<lparr>lock = lk, ref = a\<rparr>) =
           Ok (w\<lparr>calls := calls w @ [(d, p)], refs := (refs w)(a := None)\<rparr>)
       \<and> SMART_PTR_create w c lk a l0 p NULL = Ok (w, None)
       \<and> (\<forall>v lr h v'. SMART_PTR_delete v lr h = Ok v' \<and> calls v' \<noteq> calls v \<longrightarrow>
            (\<exists>g R. h = Some g \<and> refs v (ref g) = Some R \<and> refCount R = 1
                  \<and> calls v' = calls v @ [(freeFunc R, data R)]))"
proof -
  have last_part: "\<exists>g R. h = Some g \<and> refs v (ref g) = Some R \<and> refCount R = 1
                  \<and> calls v' = calls v @ [(freeFunc R, data R)]"
    if "SMART_PTR_delete v lr h = Ok v'" and "calls v' \<noteq> calls v" for v lr h v'
    using that
    by (auto simp: SMART_PTR_delete_def free_ref_def Let_def split: option.splits if_splits)
  from assms have "SMART_PTR_create w True lk a l0 p d =
           Ok (w\<lparr>refs := (refs w)(a \<mapsto> \<lparr>refCount = 1, data = p, freeFunc = d\<rparr>)\<rparr>,
               Some \<lparr>lock = lk, ref = a\<rparr>)"
    by (simp add: SMART_PTR_create_def)
  moreover from assms
  have "SMART_PTR_copy (w\<lparr>refs := (refs w)(a \<mapsto> \<lparr>refCount = 1, data = p, freeFunc = d\<rparr>)\<rparr>)
           True LOCK_OK (Some \<lparr>lock = lk, ref = a\<rparr>) =
           Ok (w\<lparr>refs := (refs w)(a \<mapsto> \<lparr>refCount = 2, data = p, freeFunc = d\<rparr>)\<rparr>,
               Some \<lparr>lock = lk, ref = a\<rparr>)"
    by (simp add: SMART_PTR_copy_def deref_def INT_MAX_def)
  moreover from assms
  have "SMART_PTR_delete (w\<lparr>refs := (refs w)(a \<mapsto> \<lparr>refCount = 2, data = p, freeFunc = d\<rparr>)\<rparr>)
           l1 (Some \<lparr>lock = lk, ref = a\<rparr>) =
           Ok (w\<lparr>refs := (refs w)(a \<mapsto> \<lparr>refCount = 1, data = p, freeFunc = d\<rparr>)\<rparr>)"
    by (simp add: SMART_PTR_delete_def Let_def)
  moreover from assms
  have "SMART_PTR_delete (w\<lparr>refs := (refs w)(a \<mapsto> \<lparr>refCount = 1, data = p, freeFunc = d\<rparr>)\<rparr>)
           l2 (Some \<lparr>lock = lk, ref = a\<rparr>) =
           Ok (w\<lparr>calls := calls w @ [(d, p)], refs := (refs w)(a := None)\<rparr>)"
    by (simp add: SMART_PTR_delete_def free_ref_def Let_def)
  moreover have "SMART_PTR_create w c lk a l0 p NULL = Ok (w, None)"
    by (simp add: SMART_PTR_create_def)
  ultimately show ?thesis using last_part by blast
qed

theorem create_copy_delete_delete_witness:
  "SMART_PTR_delete
     \<lparr>refs = (\<lambda>x. None)(5 \<mapsto> \<lparr>refCount = 2, data = 7, freeFunc = 9\<rparr>), calls = []\<rparr>
     LOCK_OK (Some \<lparr>lock = 3, ref = 5\<rparr>) =
     Ok \<lparr>refs = (\<lambda>x. None)(5 \<mapsto> \<lparr>refCount = 1, data = 7, freeFunc = 9\<rparr>), calls = []\<rparr>
   \<and> SMART_PTR_delete
     \<lparr>refs = (\<lambda>x. None)(5 \<mapsto> \<lparr>refCount = 1, data = 7, freeFunc = 9\<rparr>), calls = []\<rparr>
     LOCK_OK (Some \<lparr>lock = 3, ref = 5\<rparr>) =
     Ok \<lparr>refs = (\<lambda>x. None), calls = [(9, 7)]\<rparr>"
  using create_copy_delete_delete
    [of 9 3 5 "\<lparr>refs = (\<lambda>x. None), calls = []\<rparr>" LOCK_OK 7 LOCK_OK LOCK_OK True]
  by simp

text \<open>
  C3. A \<^verbatim>\<open>SMART_PTR_copy\<close> whose lock is not acquired returns no handle and leaves the count
  as it was. \<^verbatim>\<open>SMART_PTR_delete\<close> does not look at what \<^verbatim>\<open>Lock\<close> returns: with a lock that
  is not acquired it takes the count of the shared object from 2 to 1 all the same.
\<close>

theorem delete_ignores_lock_failure:
  "SMART_PTR_copy
     \<lparr>refs = (\<lambda>x. None)(5 \<mapsto> \<lparr>refCount = 2, data = 7, freeFunc = 9\<rparr>), calls = []\<rparr>
     True LOCK_ERROR (Some \<lparr>lock = 3, ref = 5\<rparr>) =
     Ok (\<lparr>refs = (\<lambda>x. None)(5 \<mapsto> \<lparr>refCount = 2, data = 7, freeFunc = 9\<rparr>), calls = []\<rparr>, None)
   \<and> SMART_PTR_delete
     \<lparr>refs = (\<lambda>x. None)(5 \<mapsto> \<lparr>refCount = 2, data = 7, freeFunc = 9\<rparr>), calls = []\<rparr>
     LOCK_ERROR (Some \<lparr>lock = 3, ref = 5\<rparr>) =
     Ok \<lparr>refs = (\<lambda>x. None)(5 \<mapsto> \<lparr>refCount = 1, data = 7, freeFunc = 9\<rparr>), calls = []\<rparr>"
  by (simp add: SMART_PTR_copy_def SMART_PTR_delete_def Let_def)

text \<open>
  The half of C3 that holds, for every handle: a copy whose lock is not acquired changes
  nothing.
\<close>

lemma copy_lock_failure:
  "lock h \<noteq> NULL \<Longrightarrow> lr \<noteq> LOCK_OK \<Longrightarrow> SMART_PTR_copy w m lr (Some h) = Ok (w, None)"
  by (simp add: SMART_PTR_copy_def)

section \<open>Lookup\<close>

text \<open>
  C1. The lookup reads the first entry of the list and no other: in a cache that holds the
  ids a and b, in this order, \<^verbatim>\<open>find\<close> returns no entry for b, where the scan of the whole list
  that the spec describes returns the entry at position 1.
\<close>

theorem find_reads_first_entry_only:
  "find_entry (Some ''b'')
     [\<lparr>entry_id = Some ''a'', dataHandle = Some \<lparr>lock = 3, ref = 5\<rparr>, created = 100,
        expiryInSec = - 1\<rparr>,
      \<lparr>entry_id = Some ''b'', dataHandle = Some \<lparr>lock = 3, ref = 5\<rparr>, created = 100,
        expiryInSec = - 1\<rparr>]
     = Ok (Success, None)
   \<and> find_spec ''b''
     [\<lparr>entry_id = Some ''a'', dataHandle = Some \<lparr>lock = 3, ref = 5\<rparr>, created = 100,
        expiryInSec = - 1\<rparr>,
      \<lparr>entry_id = Some ''b'', dataHandle = Some \<lparr>lock = 3, ref = 5\<rparr>, created = 100,
        expiryInSec = - 1\<rparr>] 0
     = Some 1"
  by (simp add: find_entry_Cons strncmp_eq_0_iff MRU_CACHE_MAX_ID_LEN_def)

section \<open>Adding\<close>

text \<open>
  C2. Three calls of \<^verbatim>\<open>MRU_CACHE_add\<close> on a new cache of capacity 3, with the ids a, b and a:
  the third call does not find the entry a behind b and inserts a second entry with the id a.
\<close>

theorem add_duplicates_id:
  "run_calls \<lparr>refs = (\<lambda>x. None)(5 \<mapsto> \<lparr>refCount = 1, data = 7, freeFunc = 9\<rparr>), calls = []\<rparr>
     (MRU_CACHE_new True 3)
     [Add (all_ok 100) (Some ''a'') (Some \<lparr>lock = 3, ref = 5\<rparr>) (- 1),
      Add (all_ok 100) (Some ''b'') (Some \<lparr>lock = 3, ref = 5\<rparr>) (- 1),
      Add (all_ok 100) (Some ''a'') (Some \<lparr>lock = 3, ref = 5\<rparr>) (- 1)]
   = Ok (\<lparr>refs = (\<lambda>x. None)(5 \<mapsto> \<lparr>refCount = 4, data = 7, freeFunc = 9\<rparr>), calls = []\<rparr>,
         Some \<lparr>maxItems = 3, numItems = 3, dlist =
           [\<lparr>entry_id = Some ''a'', dataHandle = Some \<lparr>lock = 3, ref = 5\<rparr>, created = 100,
              expiryInSec = - 1\<rparr>,
            \<lparr>entry_id = Some ''b'', dataHandle = Some \<lparr>lock = 3, ref = 5\<rparr>, created = 100,
              expiryInSec = - 1\<rparr>,
            \<lparr>entry_id = Some ''a'', dataHandle = Some \<lparr>lock = 3, ref = 5\<rparr>, created = 100,
              expiryInSec = - 1\<rparr>]\<rparr>)"
  by (simp add: eval_defs)

text \<open>
  C5. A call of \<^verbatim>\<open>MRU_CACHE_add\<close> that returns \<^verbatim>\<open>__FAILURE__\<close> leaves the cache as it was: the
  list with its order, every field of every entry, and both counters. Where the handle that
  was passed refers to a shared object whose count is not 0, the shared objects and the calls
  of free functions are as before too.
\<close>

theorem add_failure_keeps_cache:
  assumes "MRU_CACHE_add w e handle id_arg d x = Ok (w', h', Failure)"
  shows "h' = handle \<and>
         ((\<forall>h R. d = Some h \<longrightarrow> deref w (ref h) = Some R \<longrightarrow> refCount R \<noteq> 0) \<longrightarrow> w' = w)"
proof -
  from add_failure_unchanged [OF assms] have 1: "h' = handle"
    and 2: "w' = w \<or> (\<exists>wc c. SMART_PTR_copy w (copy_malloc e) (copy_lock e) d = Ok (wc, Some c)
                       \<and> SMART_PTR_delete wc (delete_lock e) (Some c) = Ok w')"
    by auto
  have "w' = w" if live: "\<forall>h R. d = Some h \<longrightarrow> deref w (ref h) = Some R \<longrightarrow> refCount R \<noteq> 0"
    using 2
  proof
    assume "\<exists>wc c. SMART_PTR_copy w (copy_malloc e) (copy_lock e) d = Ok (wc, Some c)
                       \<and> SMART_PTR_delete wc (delete_lock e) (Some c) = Ok w'"
    then obtain wc c where "SMART_PTR_copy w (copy_malloc e) (copy_lock e) d = Ok (wc, Some c)"
      "SMART_PTR_delete wc (delete_lock e) (Some c) = Ok w'" by auto
    then show ?thesis using live by (intro copy_then_delete [of w _ _ d wc c _ w']) auto
  qed simp
  with 1 show ?thesis by simp
qed

theorem add_failure_keeps_cache_witness:
  "MRU_CACHE_add
     \<lparr>refs = (\<lambda>x. None)(5 \<mapsto> \<lparr>refCount = 2, data = 7, freeFunc = 9\<rparr>), calls = []\<rparr>
     ((all_ok 100)\<lparr>copy_lock := LOCK_ERROR\<rparr>)
     (Some \<lparr>maxItems = 1, numItems = 1, dlist =
        [\<lparr>entry_id = Some ''a'', dataHandle = Some \<lparr>lock = 3, ref = 5\<rparr>, created = 50,
           expiryInSec = 10\<rparr>]\<rparr>)
     (Some ''a'') (Some \<lparr>lock = 3, ref = 5\<rparr>) (- 1)
   = Ok (\<lparr>refs = (\<lambda>x. None)(5 \<mapsto> \<lparr>refCount = 2, data = 7, freeFunc = 9\<rparr>), calls = []\<rparr>,
         Some \<lparr>maxItems = 1, numItems = 1, dlist =
           [\<lparr>entry_id = Some ''a'', dataHandle = Some \<lparr>lock = 3, ref = 5\<rparr>, created = 50,
              expiryInSec = 10\<rparr>]\<rparr>,
         Failure)"
proof -
  have "\<exists>w' h'. MRU_CACHE_add
     \<lparr>refs = (\<lambda>x. None)(5 \<mapsto> \<lparr>refCount = 2, data = 7, freeFunc = 9\<rparr>), calls = []\<rparr>
     ((all_ok 100)\<lparr>copy_lock := LOCK_ERROR\<rparr>)
     (Some \<lparr>maxItems = 1, numItems = 1, dlist =
        [\<lparr>entry_id = Some ''a'', dataHandle = Some \<lparr>lock = 3, ref = 5\<rparr>, created = 50,
           expiryInSec = 10\<rparr>]\<rparr>)
     (Some ''a'') (Some \<lparr>lock = 3, ref = 5\<rparr>) (- 1) = Ok (w', h', Failure)"
    by (simp add: eval_defs)
  then obtain w' h' where run: "MRU_CACHE_add
     \<lparr>refs = (\<lambda>x. None)(5 \<mapsto> \<lparr>refCount = 2, data = 7, freeFunc = 9\<rparr>), calls = []\<rparr>
     ((all_ok 100)\<lparr>copy_lock := LOCK_ERROR\<rparr>)
     (Some \<lparr>maxItems = 1, numItems = 1, dlist =
        [\<lparr>entry_id = Some ''a'', dataHandle = Some \<lparr>lock = 3, ref = 5\<rparr>, created = 50,
           expiryInSec = 10\<rparr>]\<rparr>)
     (Some ''a'') (Some \<lparr>lock = 3, ref = 5\<rparr>) (- 1) = Ok (w', h', Failure)"
    by blast
  from add_failure_keeps_cache [OF run] show ?thesis
    unfolding run by (simp add: deref_def split: if_splits)
qed

text \<open>
  The failures by argument: an absent cache, an absent id and an id of more than 300 bytes each
  make \<^verbatim>\<open>MRU_CACHE_add\<close> return \<^verbatim>\<open>__FAILURE__\<close> at once.
\<close>

lemma add_invalid_arguments:
  "MRU_CACHE_add w e None id_arg d x = Ok (w, None, Failure)"
  "MRU_CACHE_add w e handle None d x = Ok (w, handle, Failure)"
  "MRU_CACHE_MAX_ID_LEN < length s \<Longrightarrow>
     MRU_CACHE_add w e handle (Some s) d x = Ok (w, handle, Failure)"
  by (simp_all add: MRU_CACHE_add_def split: option.splits)

text \<open>
  C9. With a valid id, a call of \<^verbatim>\<open>MRU_CACHE_add\<close> whose handle is null, or whose handle has no
  value according to \<^verbatim>\<open>SMART_PTR_has_value\<close>, returns 0 and changes neither the cache nor the
  shared objects.
\<close>

theorem add_without_payload:
  assumes "length s \<le> MRU_CACHE_MAX_ID_LEN"
  shows "MRU_CACHE_add w e (Some inst) (Some s) None x = Ok (w, Some inst, Success)
       \<and> (SMART_PTR_has_value w (hv_lock e) (hv_unlock e) d = Ok False \<longrightarrow>
            MRU_CACHE_add w e (Some inst) (Some s) d x = Ok (w, Some inst, Success))"
  using assms
  by (simp add: MRU_CACHE_add_def SMART_PTR_has_value_def [of w _ _ None] SMART_PTR_get_def)

theorem add_without_payload_witness:
  "MRU_CACHE_add
     \<lparr>refs = (\<lambda>x. None)(5 \<mapsto> \<lparr>refCount = 2, data = NULL, freeFunc = 9\<rparr>), calls = []\<rparr>
     (all_ok 100)
     (Some \<lparr>maxItems = 2, numItems = 1, dlist =
        [\<lparr>entry_id = Some ''a'', dataHandle = Some \<lparr>lock = 3, ref = 6\<rparr>, created = 50,
           expiryInSec = 10\<rparr>]\<rparr>)
     (Some ''b'') (Some \<lparr>lock = 3, ref = 5\<rparr>) (- 1)
   = Ok (\<lparr>refs = (\<lambda>x. None)(5 \<mapsto> \<lparr>refCount = 2, data = NULL, freeFunc = 9\<rparr>), calls = []\<rparr>,
         Some \<lparr>maxItems = 2, numItems = 1, dlist =
           [\<lparr>entry_id = Some ''a'', dataHandle = Some \<lparr>lock = 3, ref = 6\<rparr>, created = 50,
              expiryInSec = 10\<rparr>]\<rparr>,
         Success)"
  using add_without_payload [of "''b''"
      "\<lparr>refs = (\<lambda>x. None)(5 \<mapsto> \<lparr>refCount = 2, data = NULL, freeFunc = 9\<rparr>), calls = []\<rparr>"
      "all_ok 100" _ _ "Some \<lparr>lock = 3, ref = 5\<rparr>"]
  by (simp add: MRU_CACHE_MAX_ID_LEN_def SMART_PTR_has_value_def SMART_PTR_get_def deref_def
      all_ok_def)

text \<open>
  C4. \<^verbatim>\<open>MRU_CACHE_new\<close> returns no cache exactly when \<open>maxItems\<close> is negative or the
  allocation fails. For a cache made with \<open>maxItems = k\<close>, after any calls of add, get and
  prune that all return, \<open>numItems\<close> is the length of the list and at most \<open>k\<close>, and with
  \<open>k = 0\<close> the list is empty. One \<^verbatim>\<open>MRU_CACHE_add\<close> that returns, on a cache whose counters
  are right, does one of four things. It leaves the cache as it was. Or, the cache not being
  full, it puts the new entry (the id, the handle, the clock and the expiry of the call) in
  front of the list and counts it. Or, the cache being full, it puts the new entry in front
  and drops the last entry of the list so made, every other entry staying where it was: the
  one entry evicted is the tail, and with \<open>k = 0\<close> that is the new entry itself. Or it
  rewrites the handle, the time and the expiry of the first entry, which evicts nothing.
\<close>

theorem capacity_is_never_exceeded:
  "(MRU_CACHE_new c k = None) = (k < 0 \<or> \<not> c)
   \<and> (MRU_CACHE_new c k = Some inst0 \<and> run_calls w (Some inst0) cs = Ok (w', h') \<longrightarrow>
        (\<exists>inst. h' = Some inst \<and> maxItems inst = k \<and> numItems inst = int (length (dlist inst))
               \<and> numItems inst \<le> k \<and> (k = 0 \<longrightarrow> dlist inst = [])))
   \<and> (cache_ok inst \<and> MRU_CACHE_add v e (Some inst) id_arg d x = Ok (v', g', st) \<longrightarrow>
        (\<exists>inst'. g' = Some inst' \<and> cache_ok inst' \<and> maxItems inst' = maxItems inst \<and>
           (inst' = inst
            \<or> (numItems inst < maxItems inst \<and>
                inst' = inst\<lparr>dlist := \<lparr>entry_id = id_arg, dataHandle = d, created = now e 0,
                                         expiryInSec = x\<rparr> # dlist inst,
                              numItems := numItems inst + 1\<rparr>)
            \<or> (numItems inst = maxItems inst \<and>
                inst' = inst\<lparr>dlist := butlast (\<lparr>entry_id = id_arg, dataHandle = d,
                                                  created = now e 0, expiryInSec = x\<rparr> # dlist inst)\<rparr>)
            \<or> (\<exists>old rest. dlist inst = old # rest \<and>
                  inst' = inst\<lparr>dlist := old\<lparr>created := now e 0, expiryInSec := x,
                                              dataHandle := d\<rparr> # rest\<rparr>))))"
proof (intro conjI impI)
  show "(MRU_CACHE_new c k = None) = (k < 0 \<or> \<not> c)"
    by (simp add: MRU_CACHE_new_def)
next
  assume a: "MRU_CACHE_new c k = Some inst0 \<and> run_calls w (Some inst0) cs = Ok (w', h')"
  then have i0: "inst0 = \<lparr>maxItems = k, numItems = 0, dlist = []\<rparr>" and k: "0 \<le> k"
    by (auto simp: MRU_CACHE_new_def split: if_splits)
  then have "cache_ok inst0" by (simp add: cache_ok_def)
  from run_calls_ok [OF _ this] a obtain inst where
    "h' = Some inst" "cache_ok inst" "maxItems inst = maxItems inst0" by blast
  with i0 show "\<exists>inst. h' = Some inst \<and> maxItems inst = k \<and> numItems inst = int (length (dlist inst))
               \<and> numItems inst \<le> k \<and> (k = 0 \<longrightarrow> dlist inst = [])"
    by (auto simp: cache_ok_def)
next
  assume "cache_ok inst \<and> MRU_CACHE_add v e (Some inst) id_arg d x = Ok (v', g', st)"
  then have r: "MRU_CACHE_add v e (Some inst) id_arg d x = Ok (v', g', st)" and o: "cache_ok inst"
    by simp_all
  show "\<exists>inst'. g' = Some inst' \<and> cache_ok inst' \<and> maxItems inst' = maxItems inst \<and>
           (inst' = inst
            \<or> (numItems inst < maxItems inst \<and>
                inst' = inst\<lparr>dlist := \<lparr>entry_id = id_arg, dataHandle = d, created = now e 0,
                                         expiryInSec = x\<rparr> # dlist inst,
                              numItems := numItems inst + 1\<rparr>)
            \<or> (numItems inst = maxItems inst \<and>
                inst' = inst\<lparr>dlist := butlast (\<lparr>entry_id = id_arg, dataHandle = d,
                                                  created = now e 0, expiryInSec = x\<rparr> # dlist inst)\<rparr>)
            \<or> (\<exists>old rest. dlist inst = old # rest \<and>
                  inst' = inst\<lparr>dlist := old\<lparr>created := now e 0, expiryInSec := x,
                                              dataHandle := d\<rparr> # rest\<rparr>))"
    by (rule add_step [OF r o])
qed

theorem capacity_is_never_exceeded_witness:
  "MRU_CACHE_new True (- 1) = None
   \<and> run_calls \<lparr>refs = (\<lambda>x. None)(5 \<mapsto> \<lparr>refCount = 1, data = 7, freeFunc = 9\<rparr>), calls = []\<rparr>
       (MRU_CACHE_new True 0) [Add (all_ok 100) (Some ''a'') (Some \<lparr>lock = 3, ref = 5\<rparr>) (- 1)]
     = Ok (\<lparr>refs = (\<lambda>x. None)(5 \<mapsto> \<lparr>refCount = 1, data = 7, freeFunc = 9\<rparr>), calls = []\<rparr>,
           Some \<lparr>maxItems = 0, numItems = 0, dlist = []\<rparr>)
   \<and> MRU_CACHE_add \<lparr>refs = (\<lambda>x. None)(5 \<mapsto> \<lparr>refCount = 3, data = 7, freeFunc = 9\<rparr>), calls = []\<rparr>
       (all_ok 100)
       (Some \<lparr>maxItems = 2, numItems = 2, dlist =
          [\<lparr>entry_id = Some ''b'', dataHandle = Some \<lparr>lock = 3, ref = 5\<rparr>, created = 60,
             expiryInSec = 10\<rparr>,
           \<lparr>entry_id = Some ''a'', dataHandle = Some \<lparr>lock = 3, ref = 5\<rparr>, created = 50,
             expiryInSec = 10\<rparr>]\<rparr>)
       (Some ''c'') (Some \<lparr>lock = 3, ref = 5\<rparr>) (- 1)
     = Ok (\<lparr>refs = (\<lambda>x. None)(5 \<mapsto> \<lparr>refCount = 3, data = 7, freeFunc = 9\<rparr>), calls = []\<rparr>,
           Some \<lparr>maxItems = 2, numItems = 2, dlist =
             [\<lparr>entry_id = Some ''c'', dataHandle = Some \<lparr>lock = 3, ref = 5\<rparr>, created = 100,
                expiryInSec = - 1\<rparr>,
              \<lparr>entry_id = Some ''b'', dataHandle = Some \<lparr>lock = 3, ref = 5\<rparr>, created = 60,
                expiryInSec = 10\<rparr>]\<rparr>,
           Success)
   \<and> cache_ok \<lparr>maxItems = 2, numItems = 2, dlist =
        [\<lparr>entry_id = Some ''c'', dataHandle = Some \<lparr>lock = 3, ref = 5\<rparr>, created = 100,
           expiryInSec = - 1\<rparr>,
         \<lparr>entry_id = Some ''b'', dataHandle = Some \<lparr>lock = 3, ref = 5\<rparr>, created = 60,
           expiryInSec = 10\<rparr>]\<rparr>"
proof -
  have 1: "MRU_CACHE_new True (- 1) = None"
    using capacity_is_never_exceeded [of True "- 1", THEN conjunct1] by simp
  have n: "MRU_CACHE_new True 0 = Some \<lparr>maxItems = 0, numItems = 0, dlist = []\<rparr>"
    by (simp add: MRU_CACHE_new_def)
  have "\<exists>h'. run_calls \<lparr>refs = (\<lambda>x. None)(5 \<mapsto> \<lparr>refCount = 1, data = 7, freeFunc = 9\<rparr>), calls = []\<rparr>
       (Some \<lparr>maxItems = 0, numItems = 0, dlist = []\<rparr>)
       [Add (all_ok 100) (Some ''a'') (Some \<lparr>lock = 3, ref = 5\<rparr>) (- 1)]
     = Ok (\<lparr>refs = (\<lambda>x. None)(5 \<mapsto> \<lparr>refCount = 1, data = 7, freeFunc = 9\<rparr>), calls = []\<rparr>, h')"
    by (simp add: eval_defs)
  then obtain h' where run: "run_calls
       \<lparr>refs = (\<lambda>x. None)(5 \<mapsto> \<lparr>refCount = 1, data = 7, freeFunc = 9\<rparr>), calls = []\<rparr>
       (Some \<lparr>maxItems = 0, numItems = 0, dlist = []\<rparr>)
       [Add (all_ok 100) (Some ''a'') (Some \<lparr>lock = 3, ref = 5\<rparr>) (- 1)]
     = Ok (\<lparr>refs = (\<lambda>x. None)(5 \<mapsto> \<lparr>refCount = 1, data = 7, freeFunc = 9\<rparr>), calls = []\<rparr>, h')"
    by blast
  from capacity_is_never_exceeded [of True 0 "\<lparr>maxItems = 0, numItems = 0, dlist = []\<rparr>" _ _ _ h',
      THEN conjunct2, THEN conjunct1] n run
  have "\<exists>inst. h' = Some inst \<and> maxItems inst = 0 \<and> numItems inst = int (length (dlist inst))
               \<and> numItems inst \<le> 0 \<and> ((0::int) = 0 \<longrightarrow> dlist inst = [])"
    by blast
  then have "h' = Some \<lparr>maxItems = 0, numItems = 0, dlist = []\<rparr>" by auto
  with run n have 2: "run_calls \<lparr>refs = (\<lambda>x. None)(5 \<mapsto> \<lparr>refCount = 1, data = 7, freeFunc = 9\<rparr>), calls = []\<rparr>
       (MRU_CACHE_new True 0) [Add (all_ok 100) (Some ''a'') (Some \<lparr>lock = 3, ref = 5\<rparr>) (- 1)]
     = Ok (\<lparr>refs = (\<lambda>x. None)(5 \<mapsto> \<lparr>refCount = 1, data = 7, freeFunc = 9\<rparr>), calls = []\<rparr>,
           Some \<lparr>maxItems = 0, numItems = 0, dlist = []\<rparr>)" by simp
  let ?w = "\<lparr>refs = (\<lambda>x. None)(5 \<mapsto> \<lparr>refCount = 3, data = 7, freeFunc = 9\<rparr>), calls = []\<rparr>"
  let ?b = "\<lparr>entry_id = Some ''b'', dataHandle = Some \<lparr>lock = 3, ref = 5\<rparr>, created = 60,
             expiryInSec = 10\<rparr>"
  let ?a = "\<lparr>entry_id = Some ''a'', dataHandle = Some \<lparr>lock = 3, ref = 5\<rparr>, created = 50,
             expiryInSec = 10\<rparr>"
  let ?c = "\<lparr>entry_id = Some ''c'', dataHandle = Some \<lparr>lock = 3, ref = 5\<rparr>, created = 100,
             expiryInSec = - 1\<rparr>"
  let ?inst = "\<lparr>maxItems = 2, numItems = 2, dlist = [?b, ?a]\<rparr>"
  have ok: "cache_ok ?inst" by (simp add: cache_ok_def)
  have 3: "MRU_CACHE_add ?w (all_ok 100) (Some ?inst) (Some ''c'')
      (Some \<lparr>lock = 3, ref = 5\<rparr>) (- 1) =
      Ok (?w, Some \<lparr>maxItems = 2, numItems = 2, dlist = [?c, ?b]\<rparr>, Success)"
    by (simp add: eval_defs)
  from capacity_is_never_exceeded [of _ _ _ _ _ _ _ ?inst ?w "all_ok 100" "Some ''c''"
      "Some \<lparr>lock = 3, ref = 5\<rparr>" "- 1" ?w "Some \<lparr>maxItems = 2, numItems = 2, dlist = [?c, ?b]\<rparr>"
      Success, THEN conjunct2, THEN conjunct2] ok 3
  have 4: "cache_ok \<lparr>maxItems = 2, numItems = 2, dlist = [?c, ?b]\<rparr>"
    by blast
  from 1 2 3 4 show ?thesis by blast
qed

text \<open>
  C7, as the code has it. Take a cache whose counters are right, with \<open>maxItems\<close> from 1 to
  \<open>INT_MAX - 1\<close>, an id of at most 300 bytes, and a handle \<open>v\<close> whose shared object is live,
  holds a payload and has a count from 1 to \<open>INT_MAX - 2\<close>. Let the \<^verbatim>\<open>Lock\<close> and the
  \<^verbatim>\<open>Unlock\<close> of the payload check in \<^verbatim>\<open>MRU_CACHE_add(id, v, -1)\<close> succeed. Then the add
  returns 0 when also its allocations and the lock of its copy succeed, the lock pointer of
  \<open>v\<close> and the free function of the shared object are not null, no entry of the cache has a
  null id, and the handles in the cache are backed by the shared objects. Whenever it returns
  0, the \<^verbatim>\<open>MRU_CACHE_get(id)\<close> that follows, its lock and allocation succeeding, returns 0 and
  a handle with the pointers of \<open>v\<close>, whose payload is the payload of \<open>v\<close>. The size grows by
  1 when no entry has the id and the cache is not full; it stays when no entry has the id and
  the cache is full, and when the first entry has the id.
\<close>

theorem add_then_get:
  assumes ok: "cache_ok inst" and cap: "1 \<le> maxItems inst" "maxItems inst < INT_MAX"
    and len: "length s \<le> MRU_CACHE_MAX_ID_LEN"
    and R: "deref w (ref h) = Some R" and pay: "data R \<noteq> NULL"
    and cnt: "1 \<le> refCount R" "refCount R + 1 < INT_MAX"
    and locks: "hv_lock e = LOCK_OK" "hv_unlock e = LOCK_OK"
    and env2: "copy_malloc e2" "copy_lock e2 = LOCK_OK"
  shows "(calloc_entry e \<and> copy_malloc e \<and> copy_lock e = LOCK_OK \<and> strcpy_ok e
          \<and> lock h \<noteq> NULL \<and> freeFunc R \<noteq> NULL \<and> handles_ok w (dlist inst)
          \<and> (\<forall>en \<in> set (dlist inst). entry_id en \<noteq> None) \<longrightarrow>
          (\<exists>v1 g1. MRU_CACHE_add w e (Some inst) (Some s) (Some h) (- 1) = Ok (v1, g1, Success)))
       \<and> (MRU_CACHE_add w e (Some inst) (Some s) (Some h) (- 1) = Ok (w1, h1, Success) \<longrightarrow>
           (\<exists>w2. MRU_CACHE_get w1 e2 h1 (Some s) (Some old) = Ok (w2, h1, Success, Some (Some h))
              \<and> SMART_PTR_get w2 LOCK_OK LOCK_OK (Some h) = Ok (data R))
           \<and> SMART_PTR_get w LOCK_OK LOCK_OK (Some h) = Ok (data R)
           \<and> MRU_CACHE_size (Some inst) (Some z) = (Success, Some (numItems inst))
           \<and> (find_spec s (dlist inst) 0 = None \<longrightarrow>
                MRU_CACHE_size h1 (Some z) =
                  (Success, Some (if numItems inst < maxItems inst then numItems inst + 1
                                  else numItems inst)))
           \<and> ((\<exists>i. find_entry (Some s) (dlist inst) = Ok (Success, Some i)) \<longrightarrow>
                MRU_CACHE_size h1 (Some z) = (Success, Some (numItems inst))))"
proof (intro conjI impI)
  assume "calloc_entry e \<and> copy_malloc e \<and> copy_lock e = LOCK_OK \<and> strcpy_ok e
          \<and> lock h \<noteq> NULL \<and> freeFunc R \<noteq> NULL \<and> handles_ok w (dlist inst)
          \<and> (\<forall>en \<in> set (dlist inst). entry_id en \<noteq> None)"
  with ok cap len R pay cnt locks
  show "\<exists>v1 g1. MRU_CACHE_add w e (Some inst) (Some s) (Some h) (- 1) = Ok (v1, g1, Success)"
    by (intro add_returns) auto
next
  from R have nn: "ref h \<noteq> NULL" by (auto simp: deref_def split: if_splits)
  from R pay show g0: "SMART_PTR_get w LOCK_OK LOCK_OK (Some h) = Ok (data R)"
    by (simp add: SMART_PTR_get_def)
  show "MRU_CACHE_size (Some inst) (Some z) = (Success, Some (numItems inst))"
    by (simp add: MRU_CACHE_size_def)
  assume add: "MRU_CACHE_add w e (Some inst) (Some s) (Some h) (- 1) = Ok (w1, h1, Success)"
  from add_success_shape [OF ok cap(1) R pay cnt(1) locks add]
  obtain inst1 en rest cid R' where h1: "h1 = Some inst1" and ok1: "cache_ok inst1"
    and mx1: "maxItems inst1 = maxItems inst"
    and l1: "dlist inst1 = en # rest" and dh: "dataHandle en = Some h"
    and ex: "expiryInSec en = - 1" and cid: "entry_id en = Some cid"
      "take MRU_CACHE_MAX_ID_LEN s = take MRU_CACHE_MAX_ID_LEN cid"
    and lk: "lock h \<noteq> NULL" and R': "refs w1 (ref h) = Some R'" "data R' = data R"
      "refCount R' \<le> refCount R + 1"
    and br: "find_entry (Some s) (dlist inst) = Ok (Success, None)
          \<or> (\<exists>i. find_entry (Some s) (dlist inst) = Ok (Success, Some i))"
    and new: "find_entry (Some s) (dlist inst) = Ok (Success, None) \<longrightarrow>
           numItems inst1 = (if numItems inst < maxItems inst then numItems inst + 1
                             else numItems inst)"
    and upd: "(\<exists>i. find_entry (Some s) (dlist inst) = Ok (Success, Some i)) \<longrightarrow>
           numItems inst1 = numItems inst"
    by blast
  from R'(3) cnt(2) have c1: "refCount R' \<noteq> INT_MAX" by simp
  from mx1 cap(2) have m1: "maxItems inst1 \<le> INT_MAX" by simp
  from ex have ex1: "expiryInSec en < 0" by simp
  let ?w2 = "w1\<lparr>refs := (refs w1)(ref h \<mapsto> R'\<lparr>refCount := refCount R' + 1\<rparr>)\<rparr>"
  have g: "MRU_CACHE_get w1 e2 (Some inst1) (Some s) (Some old) =
      Ok (?w2, Some inst1, Success, Some (Some h))"
    by (rule get_after_add [OF ok1 m1 l1 dh ex1 cid len lk nn R'(1) c1 env2])
  have "SMART_PTR_get ?w2 LOCK_OK LOCK_OK (Some h) = Ok (data R)"
    using nn R'(2) by (simp add: SMART_PTR_get_def deref_def)
  with g h1
  show "\<exists>w2. MRU_CACHE_get w1 e2 h1 (Some s) (Some old) = Ok (w2, h1, Success, Some (Some h))
              \<and> SMART_PTR_get w2 LOCK_OK LOCK_OK (Some h) = Ok (data R)"
    by blast
  {
    assume "find_spec s (dlist inst) 0 = None"
    with br have "find_entry (Some s) (dlist inst) = Ok (Success, None)"
      by (auto dest: find_spec_None_find_entry)
    with new h1 show "MRU_CACHE_size h1 (Some z) =
                  (Success, Some (if numItems inst < maxItems inst then numItems inst + 1
                                  else numItems inst))"
      by (simp add: MRU_CACHE_size_def)
  }
  {
    assume "\<exists>i. find_entry (Some s) (dlist inst) = Ok (Success, Some i)"
    with upd h1 show "MRU_CACHE_size h1 (Some z) = (Success, Some (numItems inst))"
      by (simp add: MRU_CACHE_size_def)
  }
qed

theorem add_then_get_witness:
  "\<exists>w1 h1 w2. MRU_CACHE_add
       \<lparr>refs = (\<lambda>x. None)(5 \<mapsto> \<lparr>refCount = 2, data = 7, freeFunc = 9\<rparr>), calls = []\<rparr>
       (all_ok 100)
       (Some \<lparr>maxItems = 2, numItems = 1, dlist =
          [\<lparr>entry_id = Some ''a'', dataHandle = Some \<lparr>lock = 3, ref = 5\<rparr>, created = 50,
             expiryInSec = 10\<rparr>]\<rparr>)
       (Some ''b'') (Some \<lparr>lock = 3, ref = 5\<rparr>) (- 1) = Ok (w1, h1, Success)
     \<and> MRU_CACHE_get w1 (all_ok 101) h1 (Some ''b'') (Some None) =
         Ok (w2, h1, Success, Some (Some \<lparr>lock = 3, ref = 5\<rparr>))
     \<and> SMART_PTR_get w2 LOCK_OK LOCK_OK (Some \<lparr>lock = 3, ref = 5\<rparr>) = Ok 7
     \<and> MRU_CACHE_size h1 (Some 0) = (Success, Some 2)"
proof -
  let ?w = "\<lparr>refs = (\<lambda>x. None)(5 \<mapsto> \<lparr>refCount = 2, data = 7, freeFunc = 9\<rparr>), calls = []\<rparr>"
  let ?inst = "\<lparr>maxItems = 2, numItems = 1, dlist =
          [\<lparr>entry_id = Some ''a'', dataHandle = Some \<lparr>lock = 3, ref = 5\<rparr>, created = 50,
             expiryInSec = 10\<rparr>]\<rparr>"
  let ?h = "\<lparr>lock = 3, ref = 5\<rparr>"
  let ?R = "\<lparr>refCount = 2, data = 7, freeFunc = 9\<rparr>"
  have 1: "cache_ok ?inst" "1 \<le> maxItems ?inst" "maxItems ?inst < INT_MAX"
    "length ''b'' \<le> MRU_CACHE_MAX_ID_LEN" "deref ?w (ref ?h) = Some ?R" "data ?R \<noteq> NULL"
    "1 \<le> refCount ?R" "refCount ?R + 1 < INT_MAX"
    "hv_lock (all_ok 100) = LOCK_OK" "hv_unlock (all_ok 100) = LOCK_OK"
    "copy_malloc (all_ok 101)" "copy_lock (all_ok 101) = LOCK_OK"
    by (simp_all add: cache_ok_def INT_MAX_def MRU_CACHE_MAX_ID_LEN_def deref_def all_ok_def)
  have 2: "calloc_entry (all_ok 100) \<and> copy_malloc (all_ok 100)
          \<and> copy_lock (all_ok 100) = LOCK_OK \<and> strcpy_ok (all_ok 100)
          \<and> lock ?h \<noteq> NULL \<and> freeFunc ?R \<noteq> NULL \<and> handles_ok ?w (dlist ?inst)
          \<and> (\<forall>en \<in> set (dlist ?inst). entry_id en \<noteq> None)"
    by (simp add: all_ok_def handles_ok_def holders_def refers_def)
  have 3: "find_spec ''b'' (dlist ?inst) 0 = None"
    by (simp add: strncmp_eq_0_iff MRU_CACHE_MAX_ID_LEN_def)
  note T = add_then_get [OF 1, of _ _ None 0]
  from T [THEN conjunct1] 2 obtain w1 h1 where
    a: "MRU_CACHE_add ?w (all_ok 100) (Some ?inst) (Some ''b'') (Some ?h) (- 1) = Ok (w1, h1, Success)"
    by blast
  from T [of w1 h1, THEN conjunct2] a 3 obtain w2 where
    "MRU_CACHE_get w1 (all_ok 101) h1 (Some ''b'') (Some None) = Ok (w2, h1, Success, Some (Some ?h))"
    "SMART_PTR_get w2 LOCK_OK LOCK_OK (Some ?h) = Ok (data ?R)"
    "MRU_CACHE_size h1 (Some 0) =
       (Success, Some (if numItems ?inst < maxItems ?inst then numItems ?inst + 1
                       else numItems ?inst))"
    by blast
  with a show ?thesis by (intro exI [of _ w1] exI [of _ h1] exI [of _ w2]) simp
qed

text \<open>
  C7 as stated fails where the capacity intervenes: adding the new id b to a full cache of
  capacity 1 leaves the size at 1, and after an add to a cache of capacity 0 the get finds
  nothing. It fails too where the lock of the payload check is not acquired: the add returns 0
  and stores nothing, so the get finds nothing.
\<close>

theorem add_then_get_counterexample:
  "MRU_CACHE_add
     \<lparr>refs = (\<lambda>x. None)(5 \<mapsto> \<lparr>refCount = 2, data = 7, freeFunc = 9\<rparr>), calls = []\<rparr>
     (all_ok 100)
     (Some \<lparr>maxItems = 1, numItems = 1, dlist =
        [\<lparr>entry_id = Some ''a'', dataHandle = Some \<lparr>lock = 3, ref = 5\<rparr>, created = 50,
           expiryInSec = 10\<rparr>]\<rparr>)
     (Some ''b'') (Some \<lparr>lock = 3, ref = 5\<rparr>) (- 1)
   = Ok (\<lparr>refs = (\<lambda>x. None)(5 \<mapsto> \<lparr>refCount = 2, data = 7, freeFunc = 9\<rparr>), calls = []\<rparr>,
         Some \<lparr>maxItems = 1, numItems = 1, dlist =
           [\<lparr>entry_id = Some ''b'', dataHandle = Some \<lparr>lock = 3, ref = 5\<rparr>, created = 100,
              expiryInSec = - 1\<rparr>]\<rparr>,
         Success)
   \<and> find_spec ''b''
        [\<lparr>entry_id = Some ''a'', dataHandle = Some \<lparr>lock = 3, ref = 5\<rparr>, created = 50,
           expiryInSec = 10\<rparr>] 0 = None
   \<and> MRU_CACHE_size
        (Some \<lparr>maxItems = 1, numItems = 1, dlist =
           [\<lparr>entry_id = Some ''a'', dataHandle = Some \<lparr>lock = 3, ref = 5\<rparr>, created = 50,
              expiryInSec = 10\<rparr>]\<rparr>) (Some 0) = (Success, Some 1)
   \<and> MRU_CACHE_size
        (Some \<lparr>maxItems = 1, numItems = 1, dlist =
           [\<lparr>entry_id = Some ''b'', dataHandle = Some \<lparr>lock = 3, ref = 5\<rparr>, created = 100,
              expiryInSec = - 1\<rparr>]\<rparr>) (Some 0) = (Success, Some 1)
   \<and> MRU_CACHE_add
        \<lparr>refs = (\<lambda>x. None)(5 \<mapsto> \<lparr>refCount = 1, data = 7, freeFunc = 9\<rparr>), calls = []\<rparr>
        (all_ok 100) (MRU_CACHE_new True 0) (Some ''a'') (Some \<lparr>lock = 3, ref = 5\<rparr>) (- 1)
      = Ok (\<lparr>refs = (\<lambda>x. None)(5 \<mapsto> \<lparr>refCount = 1, data = 7, freeFunc = 9\<rparr>), calls = []\<rparr>,
            Some \<lparr>maxItems = 0, numItems = 0, dlist = []\<rparr>, Success)
   \<and> MRU_CACHE_get
        \<lparr>refs = (\<lambda>x. None)(5 \<mapsto> \<lparr>refCount = 1, data = 7, freeFunc = 9\<rparr>), calls = []\<rparr>
        (all_ok 100) (Some \<lparr>maxItems = 0, numItems = 0, dlist = []\<rparr>) (Some ''a'') (Some None)
      = Ok (\<lparr>refs = (\<lambda>x. None)(5 \<mapsto> \<lparr>refCount = 1, data = 7, freeFunc = 9\<rparr>), calls = []\<rparr>,
            Some \<lparr>maxItems = 0, numItems = 0, dlist = []\<rparr>, Success, Some None)
   \<and> MRU_CACHE_add
        \<lparr>refs = (\<lambda>x. None)(5 \<mapsto> \<lparr>refCount = 1, data = 7, freeFunc = 9\<rparr>), calls = []\<rparr>
        ((all_ok 100)\<lparr>hv_lock := LOCK_ERROR\<rparr>)
        (Some \<lparr>maxItems = 2, numItems = 0, dlist = []\<rparr>)
        (Some ''a'') (Some \<lparr>lock = 3, ref = 5\<rparr>) (- 1)
      = Ok (\<lparr>refs = (\<lambda>x. None)(5 \<mapsto> \<lparr>refCount = 1, data = 7, freeFunc = 9\<rparr>), calls = []\<rparr>,
            Some \<lparr>maxItems = 2, numItems = 0, dlist = []\<rparr>, Success)
   \<and> MRU_CACHE_get
        \<lparr>refs = (\<lambda>x. None)(5 \<mapsto> \<lparr>refCount = 1, data = 7, freeFunc = 9\<rparr>), calls = []\<rparr>
        (all_ok 100) (Some \<lparr>maxItems = 2, numItems = 0, dlist = []\<rparr>) (Some ''a'') (Some None)
      = Ok (\<lparr>refs = (\<lambda>x. None)(5 \<mapsto> \<lparr>refCount = 1, data = 7, freeFunc = 9\<rparr>), calls = []\<rparr>,
            Some \<lparr>maxItems = 2, numItems = 0, dlist = []\<rparr>, Success, Some None)"
  by (simp add: eval_defs strncmp_eq_0_iff)

section \<open>Expiry and reading\<close>

text \<open>
  C6. An entry is expired exactly when its \<open>expiryInSec\<close> is not negative and less than what
  \<^verbatim>\<open>get_difftime\<close> returns for now and \<open>created\<close>, the seconds from \<open>created\<close> to now; so an
  entry with a negative \<open>expiryInSec\<close> never is. When the
  lookup finds an expired entry, \<^verbatim>\<open>MRU_CACHE_get\<close> returns 0, stores the null handle, and leaves
  the cache and the shared objects as they were. \<^verbatim>\<open>MRU_CACHE_get_include_expired\<close> moves the
  entry to the front and stores what \<^verbatim>\<open>SMART_PTR_copy\<close> makes of the entry's handle: with the
  lock and the allocation succeeding, a handle with the same pointers, the count raised by 1.
\<close>

theorem expiry_and_get:
  "is_expired t en =
     (0 \<le> expiryInSec en \<and> real_of_int (expiryInSec en) < get_difftime t (created en))
   \<and> is_expired t en = (0 \<le> expiryInSec en \<and> expiryInSec en < t - created en)
   \<and> (find_entry (Some s) (dlist inst) = Ok (Success, Some i) \<and> length s \<le> MRU_CACHE_MAX_ID_LEN
        \<and> is_expired (now e 0) (dlist inst ! i) \<longrightarrow>
        MRU_CACHE_get w e (Some inst) (Some s) (Some old) = Ok (w, Some inst, Success, Some None))
   \<and> (find_entry (Some s) (dlist inst) = Ok (Success, Some i) \<and> length s \<le> MRU_CACHE_MAX_ID_LEN
        \<and> 0 < numItems inst \<and> numItems inst \<le> INT_MAX \<longrightarrow>
        MRU_CACHE_get_include_expired w e (Some inst) (Some s) (Some old) =
          and_then (SMART_PTR_copy w (copy_malloc e) (copy_lock e) (dataHandle (dlist inst ! i)))
            (\<lambda>(w1, c). Ok (w1, Some (inst\<lparr>dlist := dlist inst ! i #
                                  (take i (dlist inst) @ drop (Suc i) (dlist inst))\<rparr>),
                           Success, Some c)))
   \<and> (lock h \<noteq> NULL \<and> deref w (ref h) = Some R \<and> refCount R \<noteq> INT_MAX \<longrightarrow>
        SMART_PTR_copy w True LOCK_OK (Some h) =
          Ok (w\<lparr>refs := (refs w)(ref h \<mapsto> R\<lparr>refCount := refCount R + 1\<rparr>)\<rparr>, Some h))"
proof (intro conjI impI)
  show "is_expired t en =
     (0 \<le> expiryInSec en \<and> real_of_int (expiryInSec en) < get_difftime t (created en))"
    by (auto simp: is_expired_def)
next
  show "is_expired t en = (0 \<le> expiryInSec en \<and> expiryInSec en < t - created en)"
    by (auto simp: is_expired_def get_difftime_def)
next
  assume "find_entry (Some s) (dlist inst) = Ok (Success, Some i) \<and> length s \<le> MRU_CACHE_MAX_ID_LEN
        \<and> is_expired (now e 0) (dlist inst ! i)"
  then show "MRU_CACHE_get w e (Some inst) (Some s) (Some old) = Ok (w, Some inst, Success, Some None)"
    by (intro get_found_expired) auto
next
  assume "find_entry (Some s) (dlist inst) = Ok (Success, Some i) \<and> length s \<le> MRU_CACHE_MAX_ID_LEN
        \<and> 0 < numItems inst \<and> numItems inst \<le> INT_MAX"
  then show "MRU_CACHE_get_include_expired w e (Some inst) (Some s) (Some old) =
          and_then (SMART_PTR_copy w (copy_malloc e) (copy_lock e) (dataHandle (dlist inst ! i)))
            (\<lambda>(w1, c). Ok (w1, Some (inst\<lparr>dlist := dlist inst ! i #
                                  (take i (dlist inst) @ drop (Suc i) (dlist inst))\<rparr>),
                           Success, Some c))"
    by (intro get_include_expired_found) auto
next
  assume "lock h \<noteq> NULL \<and> deref w (ref h) = Some R \<and> refCount R \<noteq> INT_MAX"
  then show "SMART_PTR_copy w True LOCK_OK (Some h) =
          Ok (w\<lparr>refs := (refs w)(ref h \<mapsto> R\<lparr>refCount := refCount R + 1\<rparr>)\<rparr>, Some h)"
    by (simp add: SMART_PTR_copy_def)
qed

theorem expiry_and_get_witness:
  "MRU_CACHE_get
     \<lparr>refs = (\<lambda>x. None)(5 \<mapsto> \<lparr>refCount = 2, data = 7, freeFunc = 9\<rparr>), calls = []\<rparr>
     (all_ok 100)
     (Some \<lparr>maxItems = 2, numItems = 2, dlist =
        [\<lparr>entry_id = Some ''a'', dataHandle = Some \<lparr>lock = 3, ref = 5\<rparr>, created = 50,
           expiryInSec = 10\<rparr>,
         \<lparr>entry_id = Some ''b'', dataHandle = Some \<lparr>lock = 3, ref = 5\<rparr>, created = 50,
           expiryInSec = 10\<rparr>]\<rparr>)
     (Some ''a'') (Some None)
   = Ok (\<lparr>refs = (\<lambda>x. None)(5 \<mapsto> \<lparr>refCount = 2, data = 7, freeFunc = 9\<rparr>), calls = []\<rparr>,
         Some \<lparr>maxItems = 2, numItems = 2, dlist =
           [\<lparr>entry_id = Some ''a'', dataHandle = Some \<lparr>lock = 3, ref = 5\<rparr>, created = 50,
              expiryInSec = 10\<rparr>,
            \<lparr>entry_id = Some ''b'', dataHandle = Some \<lparr>lock = 3, ref = 5\<rparr>, created = 50,
              expiryInSec = 10\<rparr>]\<rparr>,
         Success, Some None)
   \<and> MRU_CACHE_get_include_expired
     \<lparr>refs = (\<lambda>x. None)(5 \<mapsto> \<lparr>refCount = 2, data = 7, freeFunc = 9\<rparr>), calls = []\<rparr>
     (all_ok 100)
     (Some \<lparr>maxItems = 2, numItems = 2, dlist =
        [\<lparr>entry_id = Some ''a'', dataHandle = Some \<lparr>lock = 3, ref = 5\<rparr>, created = 50,
           expiryInSec = 10\<rparr>,
         \<lparr>entry_id = Some ''b'', dataHandle = Some \<lparr>lock = 3, ref = 5\<rparr>, created = 50,
           expiryInSec = 10\<rparr>]\<rparr>)
     (Some ''a'') (Some None)
   = Ok (\<lparr>refs = (\<lambda>x. None)(5 \<mapsto> \<lparr>refCount = 3, data = 7, freeFunc = 9\<rparr>), calls = []\<rparr>,
         Some \<lparr>maxItems = 2, numItems = 2, dlist =
           [\<lparr>entry_id = Some ''a'', dataHandle = Some \<lparr>lock = 3, ref = 5\<rparr>, created = 50,
              expiryInSec = 10\<rparr>,
            \<lparr>entry_id = Some ''b'', dataHandle = Some \<lparr>lock = 3, ref = 5\<rparr>, created = 50,
              expiryInSec = 10\<rparr>]\<rparr>,
         Success, Some (Some \<lparr>lock = 3, ref = 5\<rparr>))"
proof -
  let ?w = "\<lparr>refs = (\<lambda>x. None)(5 \<mapsto> \<lparr>refCount = 2, data = 7, freeFunc = 9\<rparr>), calls = []\<rparr>"
  let ?inst = "\<lparr>maxItems = 2, numItems = 2, dlist =
        [\<lparr>entry_id = Some ''a'', dataHandle = Some \<lparr>lock = 3, ref = 5\<rparr>, created = 50,
           expiryInSec = 10\<rparr>,
         \<lparr>entry_id = Some ''b'', dataHandle = Some \<lparr>lock = 3, ref = 5\<rparr>, created = 50,
           expiryInSec = 10\<rparr>]\<rparr>"
  note T = expiry_and_get [of 100 "dlist ?inst ! 0" "''a''" ?inst 0 "all_ok 100" ?w None
      "\<lparr>lock = 3, ref = 5\<rparr>" "\<lparr>refCount = 2, data = 7, freeFunc = 9\<rparr>"]
  have f: "find_entry (Some ''a'') (dlist ?inst) = Ok (Success, Some 0)"
    by (simp add: find_entry_Cons)
  have x: "is_expired (now (all_ok 100) 0) (dlist ?inst ! 0)"
    using T [THEN conjunct2, THEN conjunct1] by (simp add: all_ok_def)
  have l: "length ''a'' \<le> MRU_CACHE_MAX_ID_LEN" by (simp add: MRU_CACHE_MAX_ID_LEN_def)
  have c: "SMART_PTR_copy ?w True LOCK_OK (Some \<lparr>lock = 3, ref = 5\<rparr>) =
      Ok (\<lparr>refs = (\<lambda>x. None)(5 \<mapsto> \<lparr>refCount = 3, data = 7, freeFunc = 9\<rparr>), calls = []\<rparr>,
          Some \<lparr>lock = 3, ref = 5\<rparr>)"
    using T [THEN conjunct2, THEN conjunct2, THEN conjunct2, THEN conjunct2]
    by (simp add: deref_def INT_MAX_def)
  have g1: "MRU_CACHE_get ?w (all_ok 100) (Some ?inst) (Some ''a'') (Some None) =
      Ok (?w, Some ?inst, Success, Some None)"
    using T [THEN conjunct2, THEN conjunct2, THEN conjunct1] f x l by blast
  have "MRU_CACHE_get_include_expired ?w (all_ok 100) (Some ?inst) (Some ''a'') (Some None) =
          and_then (SMART_PTR_copy ?w (copy_malloc (all_ok 100)) (copy_lock (all_ok 100))
                      (dataHandle (dlist ?inst ! 0)))
            (\<lambda>(w1, c). Ok (w1, Some (?inst\<lparr>dlist := dlist ?inst ! 0 #
                                  (take 0 (dlist ?inst) @ drop (Suc 0) (dlist ?inst))\<rparr>),
                           Success, Some c))"
    using T [THEN conjunct2, THEN conjunct2, THEN conjunct2, THEN conjunct1] f l
    by (simp add: INT_MAX_def)
  then have g2: "MRU_CACHE_get_include_expired ?w (all_ok 100) (Some ?inst) (Some ''a'') (Some None) =
      Ok (\<lparr>refs = (\<lambda>x. None)(5 \<mapsto> \<lparr>refCount = 3, data = 7, freeFunc = 9\<rparr>), calls = []\<rparr>,
          Some ?inst, Success, Some (Some \<lparr>lock = 3, ref = 5\<rparr>))"
    using c by (simp add: all_ok_def)
  from g1 g2 show ?thesis by simp
qed

section \<open>Pruning\<close>

text \<open>
  C10. When \<^verbatim>\<open>MRU_CACHE_prune\<close> returns, it returns 0 and the list holds the entries that were
  not expired, unchanged and in the order they had; \<open>numItems\<close> has gone down by the number of
  entries removed. It does return when \<open>numItems\<close> is the length of the list and the handles
  of the entries are backed by the shared objects. With a clock that stands still during the
  call the list left is the old list filtered by \<^verbatim>\<open>is_expired\<close>.
\<close>

theorem prune_removes_expired_only:
  "(MRU_CACHE_prune w e (Some inst) = Ok (w', h', st) \<longrightarrow>
      st = Success \<and>
      h' = Some (inst\<lparr>dlist := unexpired (now e) (dlist inst),
                     numItems := numItems inst -
                       (int (length (dlist inst)) - int (length (unexpired (now e) (dlist inst))))\<rparr>))
   \<and> (numItems inst = int (length (dlist inst)) \<and> handles_ok w (dlist inst) \<longrightarrow>
        (\<exists>w1. MRU_CACHE_prune w e (Some inst) =
                Ok (w1, Some (inst\<lparr>dlist := unexpired (now e) (dlist inst),
                                    numItems := int (length (unexpired (now e) (dlist inst)))\<rparr>),
                    Success)
              \<and> handles_ok w1 (unexpired (now e) (dlist inst))))
   \<and> subseq (unexpired (now e) (dlist inst)) (dlist inst)
   \<and> ((\<forall>j. now e j = t) \<longrightarrow>
        unexpired (now e) (dlist inst) = filter (\<lambda>en. \<not> is_expired t en) (dlist inst))"
proof (intro conjI impI)
  assume "MRU_CACHE_prune w e (Some inst) = Ok (w', h', st)"
  from prune_Ok [OF this] show "st = Success"
    and "h' = Some (inst\<lparr>dlist := unexpired (now e) (dlist inst),
                     numItems := numItems inst -
                       (int (length (dlist inst)) - int (length (unexpired (now e) (dlist inst))))\<rparr>)"
    by simp_all
next
  assume a: "numItems inst = int (length (dlist inst)) \<and> handles_ok w (dlist inst)"
  then have "\<exists>w1 inst1. prune_loop w e inst 0 0 (dlist inst) = Ok (w1, inst1)
      \<and> handles_ok w1 (dlist inst1)"
    by (intro prune_loop_total) auto
  then obtain w1 inst1 where l: "prune_loop w e inst 0 0 (dlist inst) = Ok (w1, inst1)"
    and h: "handles_ok w1 (dlist inst1)" by blast
  then have p: "MRU_CACHE_prune w e (Some inst) = Ok (w1, Some inst1, Success)"
    by (simp add: MRU_CACHE_prune_def)
  from prune_Ok [OF p] a h p
  show "\<exists>w1. MRU_CACHE_prune w e (Some inst) =
                Ok (w1, Some (inst\<lparr>dlist := unexpired (now e) (dlist inst),
                                    numItems := int (length (unexpired (now e) (dlist inst)))\<rparr>),
                    Success)
              \<and> handles_ok w1 (unexpired (now e) (dlist inst))"
    by auto
next
  show "subseq (unexpired (now e) (dlist inst)) (dlist inst)"
    unfolding unexpired_def by (rule subseq_unexpired)
next
  assume "\<forall>j. now e j = t"
  then show "unexpired (now e) (dlist inst) = filter (\<lambda>en. \<not> is_expired t en) (dlist inst)"
    by (simp add: unexpired_def unexpired_constant_clock)
qed

theorem prune_removes_expired_only_witness:
  "\<exists>w1. MRU_CACHE_prune
     \<lparr>refs = (\<lambda>x. None)(5 \<mapsto> \<lparr>refCount = 3, data = 7, freeFunc = 9\<rparr>,
                          6 \<mapsto> \<lparr>refCount = 1, data = 8, freeFunc = 9\<rparr>), calls = []\<rparr>
     (all_ok 100)
     (Some \<lparr>maxItems = 3, numItems = 3, dlist =
        [\<lparr>entry_id = Some ''a'', dataHandle = Some \<lparr>lock = 3, ref = 5\<rparr>, created = 95,
           expiryInSec = 10\<rparr>,
         \<lparr>entry_id = Some ''b'', dataHandle = Some \<lparr>lock = 4, ref = 6\<rparr>, created = 50,
           expiryInSec = 10\<rparr>,
         \<lparr>entry_id = Some ''c'', dataHandle = Some \<lparr>lock = 3, ref = 5\<rparr>, created = 50,
           expiryInSec = - 1\<rparr>]\<rparr>)
   = Ok (w1,
         Some \<lparr>maxItems = 3, numItems = 2, dlist =
           [\<lparr>entry_id = Some ''a'', dataHandle = Some \<lparr>lock = 3, ref = 5\<rparr>, created = 95,
              expiryInSec = 10\<rparr>,
            \<lparr>entry_id = Some ''c'', dataHandle = Some \<lparr>lock = 3, ref = 5\<rparr>, created = 50,
              expiryInSec = - 1\<rparr>]\<rparr>,
         Success)"
proof -
  let ?w = "\<lparr>refs = (\<lambda>x. None)(5 \<mapsto> \<lparr>refCount = 3, data = 7, freeFunc = 9\<rparr>,
                          6 \<mapsto> \<lparr>refCount = 1, data = 8, freeFunc = 9\<rparr>), calls = []\<rparr>"
  let ?l = "[\<lparr>entry_id = Some ''a'', dataHandle = Some \<lparr>lock = 3, ref = 5\<rparr>, created = 95,
           expiryInSec = 10\<rparr>,
         \<lparr>entry_id = Some ''b'', dataHandle = Some \<lparr>lock = 4, ref = 6\<rparr>, created = 50,
           expiryInSec = 10\<rparr>,
         \<lparr>entry_id = Some ''c'', dataHandle = Some \<lparr>lock = 3, ref = 5\<rparr>, created = 50,
           expiryInSec = - 1\<rparr>]"
  let ?inst = "\<lparr>maxItems = 3, numItems = 3, dlist = ?l\<rparr>"
  have h: "numItems ?inst = int (length (dlist ?inst)) \<and> handles_ok ?w (dlist ?inst)"
    by (simp add: handles_ok_def holders_def refers_def)
  have u: "unexpired (now (all_ok 100)) (dlist ?inst) =
      [\<lparr>entry_id = Some ''a'', dataHandle = Some \<lparr>lock = 3, ref = 5\<rparr>, created = 95,
              expiryInSec = 10\<rparr>,
            \<lparr>entry_id = Some ''c'', dataHandle = Some \<lparr>lock = 3, ref = 5\<rparr>, created = 50,
              expiryInSec = - 1\<rparr>]"
    by (simp add: unexpired_def all_ok_def is_expired_def get_difftime_def)
  from prune_removes_expired_only [of ?w "all_ok 100" ?inst, THEN conjunct2, THEN conjunct1] h
  obtain w1 where "MRU_CACHE_prune ?w (all_ok 100) (Some ?inst) =
     Ok (w1, Some (?inst\<lparr>dlist := unexpired (now (all_ok 100)) (dlist ?inst),
                        numItems := int (length (unexpired (now (all_ok 100)) (dlist ?inst)))\<rparr>),
         Success)"
    by blast
  then show ?thesis unfolding u by simp
qed

end
